theory Spec2Isabelle
  imports Complex_Main
begin

section \<open>JavaScript numbers\<close>

text \<open>
  A JavaScript number is an IEEE 754 binary64 value. It is modelled as a finite real, one
  of the two infinities, or NaN. Results of arithmetic on finite values are rounded to the
  nearest binary64 value, ties to even, and overflow to an infinity, by \<open>fl\<close>. The sign of
  zero is not modelled: both zeros are \<open>Fin 0\<close>, and a zero divisor is taken as \<open>+0\<close>.
  \<open>Math.exp\<close>, \<open>Math.log\<close>, \<open>Math.sqrt\<close> and \<open>Math.pow\<close> are taken as the correctly
  rounded real functions.
\<close>

datatype jsnum = Fin real | PInf | NInf | NaN

fun isFinite :: "jsnum \<Rightarrow> bool" where
  "isFinite (Fin x) = True"
| "isFinite PInf = False"
| "isFinite NInf = False"
| "isFinite NaN = False"

fun isNaN :: "jsnum \<Rightarrow> bool" where
  "isNaN NaN = True"
| "isNaN (Fin x) = False"
| "isNaN PInf = False"
| "isNaN NInf = False"

text \<open>The relational operators \<open><\<close> and \<open><=\<close>: false as soon as an operand is NaN.\<close>

fun js_lt :: "jsnum \<Rightarrow> jsnum \<Rightarrow> bool" where
  "js_lt (Fin x) (Fin y) = (x < y)"
| "js_lt (Fin x) PInf = True"
| "js_lt NInf (Fin y) = True"
| "js_lt NInf PInf = True"
| "js_lt x y = False"

fun js_le :: "jsnum \<Rightarrow> jsnum \<Rightarrow> bool" where
  "js_le (Fin x) (Fin y) = (x \<le> y)"
| "js_le (Fin x) PInf = True"
| "js_le NInf (Fin y) = True"
| "js_le NInf PInf = True"
| "js_le NInf NInf = True"
| "js_le PInf PInf = True"
| "js_le x y = False"

abbreviation js_gt :: "jsnum \<Rightarrow> jsnum \<Rightarrow> bool" where
  "js_gt x y \<equiv> js_lt y x"

subsection \<open>Rounding to binary64\<close>

text \<open>Round to the nearest integer, ties to the even one.\<close>

definition rne :: "real \<Rightarrow> int" where
  "rne x = (let f = \<lfloor>x\<rfloor>; d = x - of_int f in
     if d < 1 / 2 then f else if 1 / 2 < d then f + 1 else if even f then f else f + 1)"

text \<open>
  The spacing of binary64 values around \<open>x\<close>: 52 fraction bits below the binary exponent
  of \<open>x\<close>, the exponent being at least \<open>-1022\<close> (subnormal values share the spacing
  \<open>2 ^ -1074\<close>).
\<close>

definition bexp :: "real \<Rightarrow> int" where
  "bexp x = max (- 1022) \<lfloor>log 2 \<bar>x\<bar>\<rfloor>"

definition fl_ulp :: "real \<Rightarrow> real" where
  "fl_ulp x = 2 powr (of_int (bexp x) - 52)"

definition fl_real :: "real \<Rightarrow> real" where
  "fl_real x = (if x = 0 then 0 else of_int (rne (x / fl_ulp x)) * fl_ulp x)"

text \<open>A rounded magnitude of \<open>2 ^ 1024\<close> or more overflows.\<close>

definition overflow_threshold :: real where
  "overflow_threshold = 2 ^ 1024"

definition fl :: "real \<Rightarrow> jsnum" where
  "fl x = (let r = fl_real x in
     if overflow_threshold \<le> r then PInf
     else if r \<le> - overflow_threshold then NInf else Fin r)"

text \<open>A decimal literal of the source denotes the binary64 value nearest to it.\<close>

definition lit :: "real \<Rightarrow> jsnum" where
  "lit x = fl x"

text \<open>
  The finite values of the type are all reals. A finite value is a binary64 value when
  rounding leaves it unchanged; every number a JavaScript program holds is one.
\<close>

definition is_double :: "jsnum \<Rightarrow> bool" where
  "is_double x = (case x of Fin r \<Rightarrow> fl r = Fin r | _ \<Rightarrow> True)"

subsection \<open>Arithmetic\<close>

fun js_neg :: "jsnum \<Rightarrow> jsnum" where
  "js_neg (Fin x) = Fin (- x)"
| "js_neg PInf = NInf"
| "js_neg NInf = PInf"
| "js_neg NaN = NaN"

fun js_add :: "jsnum \<Rightarrow> jsnum \<Rightarrow> jsnum" where
  "js_add (Fin x) (Fin y) = fl (x + y)"
| "js_add NaN y = NaN"
| "js_add x NaN = NaN"
| "js_add PInf NInf = NaN"
| "js_add NInf PInf = NaN"
| "js_add PInf y = PInf"
| "js_add NInf y = NInf"
| "js_add (Fin x) y = y"

definition js_sub :: "jsnum \<Rightarrow> jsnum \<Rightarrow> jsnum" where
  "js_sub x y = js_add x (js_neg y)"

text \<open>The sign of an infinite product or quotient.\<close>

definition signed_inf :: "bool \<Rightarrow> jsnum" where
  "signed_inf positive = (if positive then PInf else NInf)"

fun js_mul :: "jsnum \<Rightarrow> jsnum \<Rightarrow> jsnum" where
  "js_mul (Fin x) (Fin y) = fl (x * y)"
| "js_mul NaN y = NaN"
| "js_mul x NaN = NaN"
| "js_mul (Fin x) PInf = (if x = 0 then NaN else signed_inf (0 < x))"
| "js_mul (Fin x) NInf = (if x = 0 then NaN else signed_inf (x < 0))"
| "js_mul PInf (Fin y) = (if y = 0 then NaN else signed_inf (0 < y))"
| "js_mul NInf (Fin y) = (if y = 0 then NaN else signed_inf (y < 0))"
| "js_mul PInf PInf = PInf"
| "js_mul NInf NInf = PInf"
| "js_mul PInf NInf = NInf"
| "js_mul NInf PInf = NInf"

fun js_div :: "jsnum \<Rightarrow> jsnum \<Rightarrow> jsnum" where
  "js_div (Fin x) (Fin y) =
     (if y = 0 then (if x = 0 then NaN else signed_inf (0 < x)) else fl (x / y))"
| "js_div NaN y = NaN"
| "js_div x NaN = NaN"
| "js_div (Fin x) PInf = Fin 0"
| "js_div (Fin x) NInf = Fin 0"
| "js_div PInf (Fin y) = signed_inf (0 \<le> y)"
| "js_div NInf (Fin y) = signed_inf (y < 0)"
| "js_div x y = NaN"

fun Math_max :: "jsnum \<Rightarrow> jsnum \<Rightarrow> jsnum" where
  "Math_max NaN y = NaN"
| "Math_max x NaN = NaN"
| "Math_max x y = (if js_lt x y then y else x)"

fun Math_min :: "jsnum \<Rightarrow> jsnum \<Rightarrow> jsnum" where
  "Math_min NaN y = NaN"
| "Math_min x NaN = NaN"
| "Math_min x y = (if js_lt y x then y else x)"

fun Math_abs :: "jsnum \<Rightarrow> jsnum" where
  "Math_abs (Fin x) = Fin \<bar>x\<bar>"
| "Math_abs PInf = PInf"
| "Math_abs NInf = PInf"
| "Math_abs NaN = NaN"

fun Math_exp :: "jsnum \<Rightarrow> jsnum" where
  "Math_exp (Fin x) = fl (exp x)"
| "Math_exp PInf = PInf"
| "Math_exp NInf = Fin 0"
| "Math_exp NaN = NaN"

fun Math_log :: "jsnum \<Rightarrow> jsnum" where
  "Math_log (Fin x) = (if x < 0 then NaN else if x = 0 then NInf else fl (ln x))"
| "Math_log PInf = PInf"
| "Math_log NInf = NaN"
| "Math_log NaN = NaN"

fun Math_sqrt :: "jsnum \<Rightarrow> jsnum" where
  "Math_sqrt (Fin x) = (if x < 0 then NaN else fl (sqrt x))"
| "Math_sqrt PInf = PInf"
| "Math_sqrt NInf = NaN"
| "Math_sqrt NaN = NaN"

text \<open>\<open>Math.pow(x, 2)\<close>, the only use of \<open>Math.pow\<close> in the source.\<close>

definition Math_pow2 :: "jsnum \<Rightarrow> jsnum" where
  "Math_pow2 x = js_mul x x"

section \<open>The Gompertz model\<close>

text \<open>\<open>gompertzModel(t, K, b, t0)\<close>: a validated, clamped \<open>K * exp(-exp(-b * (t - t0)))\<close>.\<close>

definition gompertzModel :: "jsnum \<Rightarrow> jsnum \<Rightarrow> jsnum \<Rightarrow> jsnum \<Rightarrow> jsnum" where
  "gompertzModel t K b t0 =
     (if \<not> isFinite K \<or> \<not> isFinite b \<or> \<not> isFinite t0 then NaN
      else if js_le K (Fin 0) \<or> js_le b (Fin 0) then NaN
      else
        let exponent = js_mul (js_neg b) (js_sub t t0);
            exponent = Math_max (Fin (- 700)) (Math_min (Fin 700) exponent);
            inner_exp = Math_exp exponent
        in if \<not> isFinite inner_exp then NaN
           else
             let outer_exp = js_neg inner_exp;
                 outer_exp = Math_max (Fin (- 700)) (Math_min (Fin 700) outer_exp);
                 result = js_mul K (Math_exp outer_exp)
             in if \<not> isFinite result then NaN else result)"

text \<open>The clamp of both exponents, and the value of the model for valid parameters.\<close>

definition clamp700 :: "jsnum \<Rightarrow> jsnum" where
  "clamp700 x = Math_max (Fin (- 700)) (Math_min (Fin 700) x)"

definition gompertz_core :: "jsnum \<Rightarrow> real \<Rightarrow> real \<Rightarrow> real \<Rightarrow> jsnum" where
  "gompertz_core t K b t0 =
     js_mul (Fin K) (Math_exp (clamp700 (js_neg (Math_exp (clamp700
       (js_mul (Fin (- b)) (js_sub t (Fin t0))))))))"

section \<open>The intervention model\<close>

record gparams =
  p_K :: jsnum
  p_b :: jsnum
  p_t0 :: jsnum

record scenario_params =
  alpha :: jsnum
  delta_t :: jsnum
  kappa :: jsnum
  half_life :: jsnum
  window_length :: jsnum
  expansion_length :: jsnum

text \<open>The acceleration factor of \<open>applyIntervention\<close>, active inside the window.\<close>

definition acceleration_factor :: "jsnum \<Rightarrow> scenario_params \<Rightarrow> jsnum" where
  "acceleration_factor tSinceLaunch sp =
     (if js_lt tSinceLaunch (window_length sp) then
        let decayExponent = js_div (js_mul (js_neg (Math_log (Fin 2))) tSinceLaunch) (half_life sp);
            clampedExp = Math_max (Fin (- 100)) (Math_min (Fin 0) decayExponent);
            decayFactor = Math_exp clampedExp
        in if \<not> isFinite decayFactor then Fin 1
           else
             let cappedAlpha = Math_min (lit (1 / 2)) (Math_max (Fin 0) (alpha sp))
             in js_add (Fin 1) (js_mul cappedAlpha decayFactor)
      else Fin 1)"

text \<open>The capacity factor: a smooth ramp up to \<open>expansion_length\<close>, the full effect after.\<close>

definition capacity_factor :: "jsnum \<Rightarrow> scenario_params \<Rightarrow> jsnum" where
  "capacity_factor tSinceLaunch sp =
     (if js_lt tSinceLaunch (expansion_length sp) then
        let expansionProgress = js_div tSinceLaunch (expansion_length sp);
            expansionExp = js_mul (Fin (- 3)) expansionProgress;
            clampedExpansion = Math_max (Fin (- 100)) (Math_min (Fin 0) expansionExp);
            expansionSmoother = js_sub (Fin 1) (Math_exp clampedExpansion)
        in if \<not> isFinite expansionSmoother then Fin 1
           else
             let cappedKappa = Math_min (lit (2 / 10)) (Math_max (Fin 0) (kappa sp))
             in js_add (Fin 1) (js_mul cappedKappa expansionSmoother)
      else
        let cappedKappa = Math_min (lit (2 / 10)) (Math_max (Fin 0) (kappa sp))
        in js_add (Fin 1) cappedKappa)"

definition applyIntervention ::
  "jsnum \<Rightarrow> jsnum \<Rightarrow> gparams \<Rightarrow> scenario_params \<Rightarrow> jsnum \<Rightarrow> jsnum" where
  "applyIntervention t baselineValue params interventionParams launchQuarter =
     (if \<not> isFinite t \<or> \<not> isFinite baselineValue then baselineValue
      else if \<not> isFinite (p_K params) \<or> \<not> isFinite (p_b params) \<or> \<not> isFinite (p_t0 params)
        then baselineValue
      else if js_lt t launchQuarter then baselineValue
      else
        let tSinceLaunch = js_sub t launchQuarter;
            accelerationFactor = acceleration_factor tSinceLaunch interventionParams;
            capacityFactor = capacity_factor tSinceLaunch interventionParams
        in if \<not> isFinite accelerationFactor \<or> \<not> isFinite capacityFactor then baselineValue
           else
             let adjustedK = js_mul (p_K params) capacityFactor;
                 adjustedB = js_mul (p_b params) (Math_min (Fin 2) accelerationFactor);
                 adjustedT0 = js_sub (p_t0 params)
                                (Math_min (Fin 5) (Math_max (Fin 0) (delta_t interventionParams)))
             in if \<not> isFinite adjustedK \<or> \<not> isFinite adjustedB \<or> \<not> isFinite adjustedT0
                then baselineValue
                else
                  let result = gompertzModel t adjustedK adjustedB adjustedT0
                  in if \<not> isFinite result then baselineValue else result)"

text \<open>
  The intermediate values of \<open>applyIntervention\<close> under their names in the source: the
  decay factor computed inside the window, the expansion smoother computed inside the
  ramp, and the adjusted parameters on which the model is evaluated.
\<close>

definition decayFactor :: "jsnum \<Rightarrow> scenario_params \<Rightarrow> jsnum" where
  "decayFactor tSinceLaunch sp =
     (let decayExponent = js_div (js_mul (js_neg (Math_log (Fin 2))) tSinceLaunch) (half_life sp);
          clampedExp = Math_max (Fin (- 100)) (Math_min (Fin 0) decayExponent)
      in Math_exp clampedExp)"

definition expansionSmoother :: "jsnum \<Rightarrow> scenario_params \<Rightarrow> jsnum" where
  "expansionSmoother tSinceLaunch sp =
     (let expansionProgress = js_div tSinceLaunch (expansion_length sp);
          expansionExp = js_mul (Fin (- 3)) expansionProgress;
          clampedExpansion = Math_max (Fin (- 100)) (Math_min (Fin 0) expansionExp)
      in js_sub (Fin 1) (Math_exp clampedExpansion))"

definition adjusted_params :: "jsnum \<Rightarrow> gparams \<Rightarrow> scenario_params \<Rightarrow> jsnum \<Rightarrow> gparams" where
  "adjusted_params t params interventionParams launchQuarter =
     (let tSinceLaunch = js_sub t launchQuarter;
          accelerationFactor = acceleration_factor tSinceLaunch interventionParams;
          capacityFactor = capacity_factor tSinceLaunch interventionParams
      in \<lparr>p_K = js_mul (p_K params) capacityFactor,
          p_b = js_mul (p_b params) (Math_min (Fin 2) accelerationFactor),
          p_t0 = js_sub (p_t0 params)
                   (Math_min (Fin 5) (Math_max (Fin 0) (delta_t interventionParams)))\<rparr>)"

section \<open>Curve fitting\<close>

record fit_result =
  fit_params :: gparams
  fit_r2 :: jsnum
  fit_rmse :: jsnum
  fit_valid :: bool

text \<open>\<open>Math.max(...data)\<close>: \<open>-Infinity\<close> for no argument, NaN as soon as one is NaN.\<close>

definition Math_max_list :: "jsnum list \<Rightarrow> jsnum" where
  "Math_max_list xs = foldl Math_max NInf xs"

text \<open>A loop index or a length as a number.\<close>

definition js_of_nat :: "nat \<Rightarrow> jsnum" where
  "js_of_nat i = Fin (of_nat i)"

text \<open>
  The squared error of one grid candidate over the indices from \<open>i\<close>: \<open>None\<close> when a
  prediction is not finite (\<open>hasNaN\<close>, with the \<open>break\<close>).
\<close>

fun grid_error :: "jsnum \<Rightarrow> jsnum \<Rightarrow> jsnum \<Rightarrow> nat \<Rightarrow> jsnum list \<Rightarrow> jsnum \<Rightarrow> jsnum option" where
  "grid_error K b t0 i [] error = Some error"
| "grid_error K b t0 i (d # ds) error =
     (let predicted = gompertzModel (js_of_nat i) K b t0 in
      if \<not> isFinite predicted then None
      else grid_error K b t0 (Suc i) ds (js_add error (Math_pow2 (js_sub d predicted))))"

text \<open>The state of the search: \<open>bestParams\<close> (\<open>None\<close> for \<open>null\<close>) and \<open>bestError\<close>.\<close>

type_synonym search_state = "gparams option \<times> jsnum"

definition grid_t0 :: "jsnum list \<Rightarrow> jsnum \<Rightarrow> jsnum \<Rightarrow> search_state \<Rightarrow> jsnum \<Rightarrow> search_state" where
  "grid_t0 data K b best t0 =
     (case grid_error K b t0 0 data (Fin 0) of
        None \<Rightarrow> best
      | Some error \<Rightarrow>
          if isFinite error \<and> js_lt error (snd best)
          then (Some \<lparr>p_K = K, p_b = b, p_t0 = t0\<rparr>, error) else best)"

definition grid_b :: "jsnum list \<Rightarrow> jsnum list \<Rightarrow> jsnum \<Rightarrow> search_state \<Rightarrow> jsnum \<Rightarrow> search_state" where
  "grid_b data t0_steps K best b =
     (if js_le b (Fin 0) \<or> js_gt b (Fin 1) then best
      else foldl (grid_t0 data K b) best t0_steps)"

definition grid_K ::
  "jsnum list \<Rightarrow> jsnum \<Rightarrow> jsnum list \<Rightarrow> jsnum list \<Rightarrow> search_state \<Rightarrow> jsnum \<Rightarrow> search_state" where
  "grid_K data maxAccounts b_steps t0_steps best k_mult =
     (let K = js_mul maxAccounts k_mult in
      if js_le K maxAccounts then best
      else foldl (grid_b data t0_steps K) best b_steps)"

definition K_steps :: "jsnum list" where
  "K_steps = [lit (11 / 10), lit (13 / 10), lit (15 / 10), Fin 2, lit (25 / 10)]"

definition b_steps :: "jsnum list" where
  "b_steps = [lit (5 / 100), lit (1 / 10), lit (15 / 100), lit (2 / 10), lit (3 / 10), lit (4 / 10)]"

definition t0_steps :: "jsnum \<Rightarrow> jsnum list" where
  "t0_steps n = [Fin (- 2), Fin 0, js_mul n (lit (3 / 10)), js_mul n (lit (5 / 10)),
     js_mul n (lit (7 / 10)), js_add n (Fin 2)]"

definition grid_search :: "jsnum list \<Rightarrow> jsnum \<Rightarrow> jsnum \<Rightarrow> search_state" where
  "grid_search data n maxAccounts =
     foldl (grid_K data maxAccounts b_steps (t0_steps n)) (None, PInf) K_steps"

text \<open>
  The gradient of one refinement iteration over the indices from \<open>i\<close>: \<open>None\<close> when
  \<open>validGrads\<close> is cleared. An index whose exponent is beyond 100 in absolute value is
  skipped.
\<close>

fun gradients ::
  "gparams \<Rightarrow> nat \<Rightarrow> jsnum list \<Rightarrow> jsnum \<times> jsnum \<times> jsnum \<Rightarrow> (jsnum \<times> jsnum \<times> jsnum) option" where
  "gradients bp i [] g = Some g"
| "gradients bp i (d # ds) (gradK, gradB, gradT0) =
     (let predicted = gompertzModel (js_of_nat i) (p_K bp) (p_b bp) (p_t0 bp) in
      if \<not> isFinite predicted then None
      else
        let error = js_sub predicted d;
            exponent = js_mul (js_neg (p_b bp)) (js_sub (js_of_nat i) (p_t0 bp))
        in if js_gt (Math_abs exponent) (Fin 100) then gradients bp (Suc i) ds (gradK, gradB, gradT0)
           else
             let exp_inner = Math_exp exponent;
                 exp_outer = Math_exp (js_neg exp_inner)
             in if \<not> isFinite exp_inner \<or> \<not> isFinite exp_outer then None
                else
                  let common = js_mul (js_mul (js_mul (js_mul (Fin 2) error) (p_K bp)) exp_outer) exp_inner
                  in gradients bp (Suc i) ds
                       (js_add gradK (js_mul (js_mul (Fin 2) error) exp_outer),
                        js_add gradB (js_mul common (js_sub (js_of_nat i) (p_t0 bp))),
                        js_add gradT0 (js_mul common (p_b bp))))"

definition learningRate :: jsnum where
  "learningRate = lit (1 / 1000)"

text \<open>One iteration of the refinement: \<open>None\<close> for a \<open>break\<close>, the accepted update otherwise.\<close>

definition refine_step :: "jsnum list \<Rightarrow> jsnum \<Rightarrow> jsnum \<Rightarrow> gparams \<Rightarrow> gparams option" where
  "refine_step data n maxAccounts bp =
     (case gradients bp 0 data (Fin 0, Fin 0, Fin 0) of
        None \<Rightarrow> None
      | Some (gradK, gradB, gradT0) \<Rightarrow>
          if \<not> isFinite gradK \<or> \<not> isFinite gradB \<or> \<not> isFinite gradT0 then None
          else
            let newK = js_sub (p_K bp) (js_div (js_mul learningRate gradK) n);
                newB = js_sub (p_b bp) (js_div (js_mul learningRate gradB) n);
                newT0 = js_sub (p_t0 bp) (js_div (js_mul learningRate gradT0) n)
            in if js_gt newK maxAccounts \<and> js_lt newK (js_mul maxAccounts (Fin 5)) \<and>
                  js_gt newB (lit (1 / 100)) \<and> js_lt newB (Fin 1) \<and>
                  isFinite newK \<and> isFinite newB \<and> isFinite newT0
               then Some \<lparr>p_K = newK, p_b = newB, p_t0 = newT0\<rparr>
               else None)"

fun refine :: "nat \<Rightarrow> jsnum list \<Rightarrow> jsnum \<Rightarrow> jsnum \<Rightarrow> gparams \<Rightarrow> gparams" where
  "refine 0 data n maxAccounts bp = bp"
| "refine (Suc iterations) data n maxAccounts bp =
     (case refine_step data n maxAccounts bp of
        None \<Rightarrow> bp
      | Some bp' \<Rightarrow> refine iterations data n maxAccounts bp')"

text \<open>The two corrections after the refinement, on \<open>K\<close> and on \<open>b\<close>.\<close>

definition adjust_params :: "jsnum \<Rightarrow> gparams \<Rightarrow> gparams" where
  "adjust_params maxAccounts bp =
     (let bp = (if js_le (p_K bp) maxAccounts
                then bp\<lparr>p_K := js_mul maxAccounts (lit (12 / 10))\<rparr> else bp)
      in if js_le (p_b bp) (Fin 0) \<or> js_gt (p_b bp) (Fin 1)
         then bp\<lparr>p_b := Math_max (lit (5 / 100)) (Math_min (lit (5 / 10)) (p_b bp))\<rparr>
         else bp)"

text \<open>
  The sums of the quality measures over the indices from \<open>i\<close>: \<open>ssRes\<close>, \<open>ssTot\<close> and
  \<open>hasNaNPredictions\<close>. An index whose prediction is not finite is skipped in both sums.
\<close>

fun residuals ::
  "gparams \<Rightarrow> jsnum \<Rightarrow> nat \<Rightarrow> jsnum list \<Rightarrow> jsnum \<times> jsnum \<times> bool \<Rightarrow> jsnum \<times> jsnum \<times> bool" where
  "residuals bp mean i [] acc = acc"
| "residuals bp mean i (d # ds) (ssRes, ssTot, hasNaNPredictions) =
     (let predicted = gompertzModel (js_of_nat i) (p_K bp) (p_b bp) (p_t0 bp) in
      if \<not> isFinite predicted then residuals bp mean (Suc i) ds (ssRes, ssTot, True)
      else residuals bp mean (Suc i) ds
             (js_add ssRes (Math_pow2 (js_sub d predicted)),
              js_add ssTot (Math_pow2 (js_sub d mean)),
              hasNaNPredictions))"

definition data_mean :: "jsnum list \<Rightarrow> jsnum \<Rightarrow> jsnum" where
  "data_mean data n = js_div (foldl js_add (Fin 0) data) n"

definition r_squared :: "jsnum \<Rightarrow> jsnum \<Rightarrow> jsnum" where
  "r_squared ssRes ssTot =
     (if js_gt ssTot (Fin 0)
      then Math_max (Fin 0) (Math_min (Fin 1) (js_sub (Fin 1) (js_div ssRes ssTot)))
      else Fin 0)"

text \<open>The quality measures of the final parameters, as the returned record has them.\<close>

definition fit_quality :: "jsnum list \<Rightarrow> jsnum \<Rightarrow> gparams \<Rightarrow> fit_result" where
  "fit_quality data n bp =
     (case residuals bp (data_mean data n) 0 data (Fin 0, Fin 0, False) of
        (ssRes, ssTot, hasNaNPredictions) \<Rightarrow>
          let r2 = r_squared ssRes ssTot;
              rmse = Math_sqrt (js_div ssRes n)
          in \<lparr>fit_params = bp,
              fit_r2 = (if isFinite r2 then r2 else Fin 0),
              fit_rmse = (if isFinite rmse then rmse else PInf),
              fit_valid = (\<not> hasNaNPredictions \<and> isFinite r2)\<rparr>)"

text \<open>
  \<open>fitGompertzCurve(data)\<close>: grid search, the fallback parameters when no candidate was
  accepted, 50 iterations of refinement, and \<open>None\<close> (\<open>null\<close>) when a final parameter is
  not finite. The counter \<open>validFits\<close> and \<open>minAccounts\<close> are only logged and left out.
\<close>

definition fitGompertzCurve :: "jsnum list \<Rightarrow> fit_result option" where
  "fitGompertzCurve data =
     (let n = js_of_nat (length data);
          maxAccounts = Math_max_list data;
          bestParams =
            (case fst (grid_search data n maxAccounts) of
               None \<Rightarrow> \<lparr>p_K = js_mul maxAccounts (lit (15 / 10)), p_b = lit (2 / 10),
                         p_t0 = js_mul n (lit (5 / 10))\<rparr>
             | Some bp \<Rightarrow> bp);
          bestParams = refine 50 data n maxAccounts bestParams
      in if \<not> isFinite (p_K bestParams) \<or> \<not> isFinite (p_b bestParams) \<or>
            \<not> isFinite (p_t0 bestParams)
         then None
         else Some (fit_quality data n (adjust_params maxAccounts bestParams)))"

section \<open>The historical series and its quality report\<close>

text \<open>A JavaScript string is a sequence of UTF-16 code units, here natural numbers.\<close>

type_synonym jsstring = "nat list"

datatype data_type = Original | Missing | Interpolated | Corrected | Confirmed

text \<open>
  One entry of \<open>state.historicalData\<close>. \<open>accounts\<close> is \<open>None\<close> for \<open>null\<close>. The property
  \<open>isOutlier\<close> is absent on a new entry; absent and \<open>false\<close> are both \<open>False\<close>, the code
  only tests it for truth.
\<close>

record point =
  period :: jsstring
  accounts :: "jsnum option"
  isMissing :: bool
  dataType :: data_type
  isOutlier :: bool

text \<open>A value in arithmetic and comparisons: \<open>null\<close> converts to 0.\<close>

definition accounts_num :: "point \<Rightarrow> jsnum" where
  "accounts_num d = (case accounts d of None \<Rightarrow> Fin 0 | Some v \<Rightarrow> v)"

datatype issue_type = success | warning | error

text \<open>
  The entries pushed on \<open>issues\<close>, one constructor for each \<open>push\<close> of the source with the
  number its title shows; icon, title and description are fixed texts around that number.
\<close>

datatype issue =
    DataComplete nat
  | MissingFew nat
  | MissingSeveral nat
  | MissingSevere nat
  | OutliersDetected nat
  | NegativeGrowth nat
  | InsufficientValid nat
  | FewValid nat

fun issue_type_of :: "issue \<Rightarrow> issue_type" where
  "issue_type_of (DataComplete n) = success"
| "issue_type_of (MissingFew n) = warning"
| "issue_type_of (MissingSeveral n) = warning"
| "issue_type_of (MissingSevere n) = error"
| "issue_type_of (OutliersDetected n) = warning"
| "issue_type_of (NegativeGrowth n) = warning"
| "issue_type_of (InsufficientValid n) = error"
| "issue_type_of (FewValid n) = warning"

record quality_report =
  score :: int
  issues :: "issue list"
  missingCount :: nat
  validCount :: nat
  totalCount :: nat

text \<open>Mean and standard deviation of the values, as the two \<open>reduce\<close> calls compute them.\<close>

definition series_mean :: "jsnum list \<Rightarrow> jsnum" where
  "series_mean vs = js_div (foldl js_add (Fin 0) vs) (js_of_nat (length vs))"

definition series_stdDev :: "jsnum list \<Rightarrow> jsnum" where
  "series_stdDev vs =
     (let mean = series_mean vs in
      Math_sqrt (js_div (foldl (\<lambda>sum v. js_add sum (Math_pow2 (js_sub v mean))) (Fin 0) vs)
        (js_of_nat (length vs))))"

definition zScore :: "jsnum \<Rightarrow> jsnum \<Rightarrow> point \<Rightarrow> jsnum" where
  "zScore mean stdDev d = Math_abs (js_div (js_sub (accounts_num d) mean) stdDev)"

text \<open>
  The outlier test of the \<open>forEach\<close>: it runs over the entries that are not missing, and
  only when there are at least five of them.
\<close>

definition outlier_now :: "point list \<Rightarrow> point \<Rightarrow> bool" where
  "outlier_now data d =
     (let validData = filter (\<lambda>d. \<not> isMissing d) data;
          vs = map accounts_num validData
      in \<not> isMissing d \<and> 5 \<le> length validData \<and>
         js_gt (zScore (series_mean vs) (series_stdDev vs) d) (Fin 2))"

text \<open>The number of entries below their predecessor, for the values of \<open>validData\<close>.\<close>

fun nonMonotonic :: "jsnum list \<Rightarrow> nat" where
  "nonMonotonic (prev # v # vs) = (if js_lt v prev then 1 else 0) + nonMonotonic (v # vs)"
| "nonMonotonic vs = 0"

text \<open>The part of \<open>state\<close> that parsing, editing and the analysis read and write.\<close>

record app_state =
  historicalData :: "point list"
  dataQuality :: "quality_report option"

text \<open>
  The body of \<open>analyzeDataQuality()\<close> on the series: it sets \<open>isOutlier\<close> on the entries
  the test flags (the entries of \<open>validData\<close> are the entries of the series) and builds the
  report.
\<close>

definition quality_analysis :: "point list \<Rightarrow> point list \<times> quality_report" where
  "quality_analysis data =
     (let missingCount = length (filter isMissing data);
          (issues, score) =
            (if missingCount = 0 then ([DataComplete (length data)], 100)
             else if missingCount \<le> 2 then ([MissingFew missingCount], 100 - 10 * int missingCount)
             else if missingCount \<le> 5 then ([MissingSeveral missingCount], 100 - 30)
             else ([MissingSevere missingCount], 100 - 50));
          validData = filter (\<lambda>d. \<not> isMissing d) data;
          outlierCount = length (filter (outlier_now data) validData);
          data' = map (\<lambda>d. if outlier_now data d then d\<lparr>isOutlier := True\<rparr> else d) data;
          (issues, score) =
            (if 5 \<le> length validData \<and> 0 < outlierCount
             then (issues @ [OutliersDetected outlierCount], score - 5 * int outlierCount)
             else (issues, score));
          nonMonotonicCount = nonMonotonic (map accounts_num validData);
          (issues, score) =
            (if 0 < nonMonotonicCount
             then (issues @ [NegativeGrowth nonMonotonicCount], score - 5 * int nonMonotonicCount)
             else (issues, score));
          validCount = length validData;
          (issues, score) =
            (if validCount < 8 then (issues @ [InsufficientValid validCount], score - 40)
             else if validCount < 12 then (issues @ [FewValid validCount], score - 10)
             else (issues, score));
          score = max 0 (min 100 score)
      in (data',
          \<lparr>score = score, issues = issues, missingCount = missingCount,
           validCount = validCount, totalCount = length data\<rparr>))"

text \<open>\<open>analyzeDataQuality()\<close>: the analysis of \<open>state.historicalData\<close>, stored in the state.\<close>

definition analyzeDataQuality :: "app_state \<Rightarrow> app_state" where
  "analyzeDataQuality st =
     (case quality_analysis (historicalData st) of
        (data', report) \<Rightarrow> st\<lparr>historicalData := data', dataQuality := Some report\<rparr>)"

text \<open>A series of values in which no value is below its predecessor.\<close>

fun nondecreasing :: "jsnum list \<Rightarrow> bool" where
  "nondecreasing (prev # v # vs) = (js_le prev v \<and> nondecreasing (v # vs))"
| "nondecreasing vs = True"

text \<open>
  \<open>confirmCell(index)\<close>: clears the flag of one entry, marks it confirmed and analyses the
  series again. An index outside the series raises a \<open>TypeError\<close>: \<open>None\<close>.
\<close>

definition confirmCell :: "nat \<Rightarrow> app_state \<Rightarrow> app_state option" where
  "confirmCell index st =
     (if index < length (historicalData st)
      then Some (analyzeDataQuality
             (st\<lparr>historicalData := (historicalData st)
                [index := (historicalData st ! index)\<lparr>isOutlier := False, dataType := Confirmed\<rparr>]\<rparr>))
      else None)"

section \<open>Parsing the input text\<close>

text \<open>
  \<open>js_str\<close> gives the code units of a string literal of the source or of a sample input,
  all of whose characters are ASCII.
\<close>

definition js_str :: "string \<Rightarrow> jsstring" where
  "js_str s = map of_char s"

text \<open>
  The code units that \<open>trim\<close> and \<open>parseFloat\<close> strip: the white space and line
  terminators of ECMAScript, which are TAB, LF, VT, FF, CR, SP, U+00A0, U+1680, U+2000 to
  U+200A, U+2028, U+2029, U+202F, U+205F, U+3000 and U+FEFF.
\<close>

definition is_space :: "nat \<Rightarrow> bool" where
  "is_space c = (c = 9 \<or> c = 10 \<or> c = 11 \<or> c = 12 \<or> c = 13 \<or> c = 32 \<or> c = 160 \<or>
                 c = 5760 \<or> (8192 \<le> c \<and> c \<le> 8202) \<or> c = 8232 \<or> c = 8233 \<or> c = 8239 \<or>
                 c = 8287 \<or> c = 12288 \<or> c = 65279)"

definition trim :: "jsstring \<Rightarrow> jsstring" where
  "trim s = rev (dropWhile is_space (rev (dropWhile is_space s)))"

text \<open>\<open>s.split(c)\<close> for a separator of one character: at least one piece, the last may be empty.\<close>

fun split_on :: "nat \<Rightarrow> jsstring \<Rightarrow> jsstring list" where
  "split_on c [] = [] # []"
| "split_on c (x # xs) =
     (if x = c then [] # split_on c xs
      else (case split_on c xs of [] \<Rightarrow> [x] # [] | p # ps \<Rightarrow> (x # p) # ps))"

text \<open>
  \<open>toLowerCase\<close> on the letters \<open>A\<close> to \<open>Z\<close>. The code only compares its result with the
  words \<open>null\<close> and \<open>na\<close>, and no character outside ASCII has \<open>n\<close>, \<open>u\<close>, \<open>l\<close> or \<open>a\<close> as
  its lower case, so the other capital letters of Unicode, which are left as they are
  here, make no difference to either comparison.
\<close>

definition toLowerCase :: "jsstring \<Rightarrow> jsstring" where
  "toLowerCase s = map (\<lambda>c. if 65 \<le> c \<and> c \<le> 90 then c + 32 else c) s"

definition is_digit :: "nat \<Rightarrow> bool" where
  "is_digit c = (48 \<le> c \<and> c \<le> 57)"

definition digit_val :: "nat \<Rightarrow> nat" where
  "digit_val c = c - 48"

definition digits_val :: "jsstring \<Rightarrow> nat" where
  "digits_val ds = foldl (\<lambda>n c. 10 * n + digit_val c) 0 ds"

text \<open>
  The exponent part after the mantissa, when it is complete: \<open>e\<close> or \<open>E\<close>, an optional
  sign and at least one digit. Otherwise the numeral ends before it.
\<close>

definition exponent_part :: "jsstring \<Rightarrow> int" where
  "exponent_part s =
     (case s of
        [] \<Rightarrow> 0
      | c # r \<Rightarrow>
          if c = of_char CHR ''e'' \<or> c = of_char CHR ''E'' then
            (let (neg, r) = (case r of
                               [] \<Rightarrow> (False, r)
                             | x # r' \<Rightarrow> if x = of_char CHR ''-'' then (True, r')
                                         else if x = of_char CHR ''+'' then (False, r')
                                         else (False, r));
                 ds = takeWhile is_digit r
             in if ds = [] then 0 else if neg then - int (digits_val ds) else int (digits_val ds))
          else 0)"

text \<open>
  The unsigned part of \<open>parseFloat\<close>: \<open>Infinity\<close>, or digits with an optional fraction and
  exponent, of which the longest prefix counts; NaN when there is no digit.
\<close>

definition parse_unsigned :: "jsstring \<Rightarrow> jsnum" where
  "parse_unsigned s =
     (if take 8 s = js_str ''Infinity'' then PInf
      else
        let ip = takeWhile is_digit s;
            r = dropWhile is_digit s;
            (fp, r) = (case r of
                         [] \<Rightarrow> ([], r)
                       | c # r' \<Rightarrow> if c = of_char CHR ''.''
                                   then (takeWhile is_digit r', dropWhile is_digit r')
                                   else ([], r))
        in if ip = [] \<and> fp = [] then NaN
           else fl (of_nat (digits_val (ip @ fp)) * 10 powr (of_int (exponent_part r) - of_nat (length fp))))"

definition parseFloat :: "jsstring \<Rightarrow> jsnum" where
  "parseFloat s =
     (case dropWhile is_space s of
        [] \<Rightarrow> NaN
      | c # r \<Rightarrow>
          if c = of_char CHR ''-'' then js_neg (parse_unsigned r)
          else if c = of_char CHR ''+'' then parse_unsigned r
          else parse_unsigned (c # r))"

datatype parse_error =
    FieldCount
  | InvalidNumber jsstring
  | NegativeNumber jsstring
  | TooFewPoints

text \<open>The body of the loop over the lines, for a line that is not blank.\<close>

definition parse_line :: "jsstring \<Rightarrow> parse_error + point" where
  "parse_line line =
     (let parts = split_on (of_char CHR '','') line in
      if length parts \<noteq> 2 then Inl FieldCount
      else
        let period = trim (parts ! 0);
            accountsStr = trim (parts ! 1)
        in if accountsStr = [] \<or> accountsStr = js_str ''-'' \<or>
              toLowerCase accountsStr = js_str ''null'' \<or> toLowerCase accountsStr = js_str ''na''
           then Inr \<lparr>period = period, accounts = None, isMissing = True, dataType = Missing,
                      isOutlier = False\<rparr>
           else
             let accounts = parseFloat accountsStr
             in if isNaN accounts then Inl (InvalidNumber accountsStr)
                else if js_lt accounts (Fin 0) then Inl (NegativeNumber accountsStr)
                else Inr \<lparr>period = period, accounts = Some accounts, isMissing = False,
                           dataType = Original, isOutlier = False\<rparr>)"

fun parse_lines :: "jsstring list \<Rightarrow> point list \<Rightarrow> parse_error + point list" where
  "parse_lines [] data = Inr data"
| "parse_lines (line # lines) data =
     (if trim line = [] then parse_lines lines data
      else (case parse_line line of
              Inl e \<Rightarrow> Inl e
            | Inr d \<Rightarrow> parse_lines lines (data @ [d])))"

text \<open>
  The conditions under which the loop refuses a row: a row is a line that is not blank;
  it is refused when it does not have two fields, or its value is not a marker of a
  missing value and \<open>parseFloat\<close> gives NaN or a negative number for it.
\<close>

definition missing_marker :: "jsstring \<Rightarrow> bool" where
  "missing_marker v = (v = [] \<or> v = js_str ''-'' \<or> toLowerCase v = js_str ''null'' \<or>
     toLowerCase v = js_str ''na'')"

definition row_rejected :: "jsstring \<Rightarrow> bool" where
  "row_rejected line =
     (let parts = split_on (of_char CHR '','') line in
      length parts \<noteq> 2 \<or>
      (let v = trim (parts ! 1) in
       \<not> missing_marker v \<and> (isNaN (parseFloat v) \<or> js_lt (parseFloat v) (Fin 0))))"

definition data_rows :: "jsstring \<Rightarrow> jsstring list" where
  "data_rows dataInput = filter (\<lambda>line. trim line \<noteq> []) (split_on 10 (trim dataInput))"

text \<open>
  \<open>parseAndDisplayData()\<close> on the text of the input field, whose lines end with the code
  unit 10. A thrown error is caught and shown: the result is the error (\<open>None\<close> when the
  text was accepted) and the state.
\<close>

definition parseAndDisplayData :: "jsstring \<Rightarrow> app_state \<Rightarrow> parse_error option \<times> app_state" where
  "parseAndDisplayData dataInput st =
     (case parse_lines (split_on 10 (trim dataInput)) [] of
        Inl e \<Rightarrow> (Some e, st)
      | Inr data \<Rightarrow>
          if length data < 8 then (Some TooFewPoints, st)
          else (None, analyzeDataQuality (st\<lparr>historicalData := data\<rparr>)))"

text \<open>
  \<open>editCell(index)\<close> with the answer to the prompt (\<open>None\<close> when it was cancelled): a valid
  number replaces the value of the entry and the series is analysed again.
\<close>

definition editCell :: "nat \<Rightarrow> jsstring option \<Rightarrow> app_state \<Rightarrow> app_state option" where
  "editCell index answer st =
     (if index < length (historicalData st) then
        (case answer of
           None \<Rightarrow> Some st
         | Some v \<Rightarrow>
             let accounts = parseFloat v in
             if \<not> isNaN accounts \<and> js_le (Fin 0) accounts
             then Some (analyzeDataQuality
                    (st\<lparr>historicalData := (historicalData st)
                       [index := (historicalData st ! index)
                          \<lparr>accounts := Some accounts, isMissing := False, dataType := Corrected\<rparr>]\<rparr>))
             else Some st)
      else None)"

text \<open>
  For the proofs: a series of eight zero values, as the parser accepts it; what the grid
  search can return; and the parameter records met when the series is the single value 1.
\<close>

definition zeros8 :: "jsnum list" where
  "zeros8 = [Fin 0, Fin 0, Fin 0, Fin 0, Fin 0, Fin 0, Fin 0, Fin 0]"

definition grid_candidate :: "jsnum list \<Rightarrow> jsnum \<Rightarrow> jsnum \<Rightarrow> gparams \<Rightarrow> bool" where
  "grid_candidate data n maxAccounts bp =
     (\<exists>k \<in> set K_steps. \<exists>b \<in> set b_steps. \<exists>t0 \<in> set (t0_steps n).
        bp = \<lparr>p_K = js_mul maxAccounts k, p_b = b, p_t0 = t0\<rparr> \<and>
        \<not> js_le (js_mul maxAccounts k) maxAccounts \<and>
        grid_error (js_mul maxAccounts k) b t0 0 data (Fin 0) \<noteq> None)"

definition unit_params :: "gparams \<Rightarrow> bool" where
  "unit_params bp = (\<exists>K b t0. bp = \<lparr>p_K = Fin K, p_b = Fin b, p_t0 = Fin t0\<rparr> \<and>
     0 < K \<and> K \<le> 5 \<and> 0 < b)"

text \<open>
  Sample series: twenty rising values without an outlier; five values of which the
  third carries a flag from an earlier analysis; and ten values of which the last is an
  outlier and flagged.
\<close>

definition observed :: "real \<Rightarrow> point" where
  "observed v = \<lparr>period = [], accounts = Some (Fin v), isMissing = False, dataType = Original,
     isOutlier = False\<rparr>"

definition even_series :: "point list" where
  "even_series = map observed [0, 2, 4, 6, 8, 10, 12, 14, 16, 18, 20, 22, 24, 26, 28, 30, 32, 34, 36, 38]"

definition flagged_series :: "point list" where
  "flagged_series = [observed 1, observed 2, (observed 3)\<lparr>isOutlier := True\<rparr>, observed 4, observed 5]"

definition flagged_state :: app_state where
  "flagged_state = \<lparr>historicalData = flagged_series, dataQuality = None\<rparr>"

definition outlier_series :: "point list" where
  "outlier_series = [observed 0, observed 0, observed 0, observed 0, observed 0, observed 0,
     observed 0, observed 0, observed 0, (observed 10)\<lparr>isOutlier := True\<rparr>]"

definition outlier_state :: app_state where
  "outlier_state = \<lparr>historicalData = outlier_series, dataQuality = None\<rparr>"

text \<open>
  Sample input: eight rows whose values are a number followed by letters, and the state
  before any input.
\<close>

definition lenient_batch :: jsstring where
  "lenient_batch =
     js_str ''Q1 2020,12abc'' @ 10 # js_str ''Q2 2020,12abc'' @ 10 #
     js_str ''Q3 2020,12abc'' @ 10 # js_str ''Q4 2020,12abc'' @ 10 #
     js_str ''Q1 2021,12abc'' @ 10 # js_str ''Q2 2021,12abc'' @ 10 #
     js_str ''Q3 2021,12abc'' @ 10 # js_str ''Q4 2021,12abc''"

definition empty_state :: app_state where
  "empty_state = \<lparr>historicalData = [], dataQuality = None\<rparr>"

section \<open>Rounding\<close>

lemma rne_of_int: "rne (of_int k) = k"
  by (simp add: rne_def)

lemma rne_floor: "\<lfloor>x\<rfloor> \<le> rne x" "rne x \<le> \<lfloor>x\<rfloor> + 1"
  by (simp_all add: rne_def Let_def)

lemma rne_mono: "x \<le> y \<Longrightarrow> rne x \<le> rne y"
proof -
  assume le: "x \<le> y"
  then have fl: "\<lfloor>x\<rfloor> \<le> \<lfloor>y\<rfloor>" by (rule floor_mono)
  show ?thesis
  proof (cases "\<lfloor>x\<rfloor> = \<lfloor>y\<rfloor>")
    case True
    with le show ?thesis by (auto simp add: rne_def Let_def)
  next
    case False
    with fl have "\<lfloor>x\<rfloor> + 1 \<le> \<lfloor>y\<rfloor>" by simp
    with rne_floor(2) [of x] rne_floor(1) [of y] show ?thesis by linarith
  qed
qed

lemma rne_uminus: "rne (- x) = - rne x"
proof (cases "x = of_int \<lfloor>x\<rfloor>")
  case True
  then obtain k :: int where "x = of_int k" ..
  then have "- x = of_int (- k)" by simp
  then show ?thesis using \<open>x = of_int k\<close> by (simp only: rne_of_int)
next
  case False
  then have lt: "of_int \<lfloor>x\<rfloor> < x" using of_int_floor_le [of x] by linarith
  have fm: "\<lfloor>- x\<rfloor> = - \<lfloor>x\<rfloor> - 1"
  proof (rule floor_unique)
    show "of_int (- \<lfloor>x\<rfloor> - 1) \<le> - x"
      using floor_correct [of x] by (simp; linarith)
    show "- x < of_int (- \<lfloor>x\<rfloor> - 1) + 1"
      using lt by (simp; linarith?)
  qed
  show ?thesis
    unfolding rne_def Let_def fm using lt by (auto simp add: algebra_simps)
qed

lemma rne_le_int: "x \<le> of_int k \<Longrightarrow> rne x \<le> k"
  using rne_mono [of x "of_int k"] by (simp add: rne_of_int)

lemma rne_ge_int: "of_int k \<le> x \<Longrightarrow> k \<le> rne x"
  using rne_mono [of "of_int k" x] by (simp add: rne_of_int)

lemma bexp_uminus: "bexp (- x) = bexp x"
  by (simp add: bexp_def)

lemma bexp_upper: "x \<noteq> 0 \<Longrightarrow> \<bar>x\<bar> < 2 powr (of_int (bexp x) + 1)"
proof -
  assume nz: "x \<noteq> 0"
  have "log 2 \<bar>x\<bar> < of_int \<lfloor>log 2 \<bar>x\<bar>\<rfloor> + 1" by linarith
  also have "\<dots> \<le> of_int (bexp x) + 1" by (simp add: bexp_def)
  finally have "2 powr (log 2 \<bar>x\<bar>) < 2 powr (of_int (bexp x) + 1)"
    by (simp only: powr_less_cancel_iff) 
  with nz show ?thesis by simp
qed

lemma bexp_lower: "x \<noteq> 0 \<Longrightarrow> - 1022 < bexp x \<Longrightarrow> 2 powr (of_int (bexp x)) \<le> \<bar>x\<bar>"
proof -
  assume nz: "x \<noteq> 0" and big: "- 1022 < bexp x"
  then have "bexp x = \<lfloor>log 2 \<bar>x\<bar>\<rfloor>" by (simp add: bexp_def max_def split: if_splits)
  then have "of_int (bexp x) \<le> log 2 \<bar>x\<bar>" by simp
  then have "2 powr (of_int (bexp x)) \<le> 2 powr (log 2 \<bar>x\<bar>)"
    by (simp only: powr_le_cancel_iff)
  with nz show ?thesis by simp
qed

lemma bexp_mono: "x \<noteq> 0 \<Longrightarrow> \<bar>x\<bar> \<le> \<bar>y\<bar> \<Longrightarrow> bexp x \<le> bexp y"
proof -
  assume nz: "x \<noteq> 0" and le: "\<bar>x\<bar> \<le> \<bar>y\<bar>"
  then have "log 2 \<bar>x\<bar> \<le> log 2 \<bar>y\<bar>" by simp
  then have "\<lfloor>log 2 \<bar>x\<bar>\<rfloor> \<le> \<lfloor>log 2 \<bar>y\<bar>\<rfloor>" by (rule floor_mono)
  then show ?thesis unfolding bexp_def by linarith
qed

lemma fl_ulp_pos: "0 < fl_ulp x"
  by (simp add: fl_ulp_def)

lemma fl_ulp_uminus: "fl_ulp (- x) = fl_ulp x"
  by (simp add: fl_ulp_def bexp_uminus)

lemma fl_real_0: "fl_real 0 = 0"
  by (simp add: fl_real_def)

lemma fl_real_uminus: "fl_real (- x) = - fl_real x"
  by (simp add: fl_real_def fl_ulp_uminus rne_uminus)

lemma fl_real_nonneg: "0 \<le> x \<Longrightarrow> 0 \<le> fl_real x"
proof -
  assume "0 \<le> x"
  then have "0 \<le> x / fl_ulp x" using fl_ulp_pos [of x] by simp
  then have "0 \<le> rne (x / fl_ulp x)" using rne_ge_int [of 0] by simp
  then show ?thesis using fl_ulp_pos [of x] by (simp add: fl_real_def)
qed

lemma fl_ulp_scale:
  "2 ^ 53 * fl_ulp x = 2 powr (of_int (bexp x + 1))"
  "2 ^ 52 * fl_ulp x = 2 powr (of_int (bexp x))"
proof -
  have "(of_int (bexp x + 1) :: real) = of_int (bexp x) - 52 + 53" by simp
  then have "(2::real) powr (of_int (bexp x + 1)) = 2 powr (of_int (bexp x) - 52 + 53)"
    by (simp only:)
  also have "\<dots> = 2 powr (of_int (bexp x) - 52) * 2 powr 53" by (simp only: powr_add)
  finally show "2 ^ 53 * fl_ulp x = 2 powr (of_int (bexp x + 1))"
    by (simp add: fl_ulp_def)
  have "(of_int (bexp x) :: real) = of_int (bexp x) - 52 + 52" by simp
  then have "(2::real) powr (of_int (bexp x)) = 2 powr (of_int (bexp x) - 52 + 52)"
    by (simp only:)
  also have "\<dots> = 2 powr (of_int (bexp x) - 52) * 2 powr 52" by (simp only: powr_add)
  finally show "2 ^ 52 * fl_ulp x = 2 powr (of_int (bexp x))"
    by (simp add: fl_ulp_def)
qed

text \<open>The scaled significand is below 2^53, and at least 2^52 for a normal value.\<close>

lemma quot_upper: "0 < x \<Longrightarrow> x / fl_ulp x < 2 ^ 53"
proof -
  assume pos: "0 < x"
  then have "x < 2 powr (of_int (bexp x + 1))" using bexp_upper [of x] by simp
  also have "\<dots> = 2 ^ 53 * fl_ulp x"
    by (simp only: fl_ulp_scale)
  finally show ?thesis using fl_ulp_pos [of x] by (simp add: pos_divide_less_eq)
qed

lemma quot_lower: "0 < x \<Longrightarrow> - 1022 < bexp x \<Longrightarrow> 2 ^ 52 \<le> x / fl_ulp x"
proof -
  assume pos: "0 < x" and big: "- 1022 < bexp x"
  have "2 ^ 52 * fl_ulp x = 2 powr (of_int (bexp x))"
    by (simp only: fl_ulp_scale)
  also have "\<dots> \<le> x" using bexp_lower [of x] pos big by simp
  finally show ?thesis using fl_ulp_pos [of x] by (simp add: pos_le_divide_eq)
qed

lemma fl_real_pos_mono:
  assumes pos: "0 < x" and le: "x \<le> y"
  shows "fl_real x \<le> fl_real y"
proof -
  from pos le have ypos: "0 < y" by simp
  have ee: "bexp x \<le> bexp y" using bexp_mono [of x y] pos le by simp
  show ?thesis
  proof (cases "bexp x = bexp y")
    case True
    then have u: "fl_ulp x = fl_ulp y" by (simp add: fl_ulp_def)
    have "x / fl_ulp y \<le> y / fl_ulp y"
      using le fl_ulp_pos [of y] by (simp add: divide_right_mono)
    then have "rne (x / fl_ulp y) \<le> rne (y / fl_ulp y)" by (rule rne_mono)
    then have "of_int (rne (x / fl_ulp y)) * fl_ulp y \<le> of_int (rne (y / fl_ulp y)) * fl_ulp y"
      using fl_ulp_pos [of y] by simp
    with pos ypos u show ?thesis by (simp add: fl_real_def)
  next
    case False
    with ee have lt: "bexp x + 1 \<le> bexp y" by simp
    then have big: "- 1022 < bexp y" by (simp add: bexp_def)
    have "rne (x / fl_ulp x) \<le> 2 ^ 53"
      using quot_upper [OF pos] rne_le_int [of "x / fl_ulp x" "2 ^ 53"] by simp
    then have "of_int (rne (x / fl_ulp x)) \<le> (2 ^ 53 :: real)"
      by (simp flip: of_int_le_iff)
    then have "of_int (rne (x / fl_ulp x)) * fl_ulp x \<le> 2 ^ 53 * fl_ulp x"
      using fl_ulp_pos [of x] by (simp only: mult_le_cancel_right_pos)
    also have "\<dots> = 2 powr (of_int (bexp x + 1))"
      by (simp only: fl_ulp_scale)
    also have "\<dots> \<le> 2 powr (of_int (bexp y))"
      using lt by simp
    also have "\<dots> = 2 ^ 52 * fl_ulp y"
      by (simp only: fl_ulp_scale)
    also have "\<dots> \<le> of_int (rne (y / fl_ulp y)) * fl_ulp y"
    proof -
      have "2 ^ 52 \<le> rne (y / fl_ulp y)"
        using quot_lower [OF ypos big] rne_ge_int [of "2 ^ 52" "y / fl_ulp y"] by simp
      then have "(2 ^ 52 :: real) \<le> of_int (rne (y / fl_ulp y))"
        by (simp flip: of_int_le_iff)
      then show ?thesis
        using fl_ulp_pos [of y] by (simp only: mult_le_cancel_right_pos)
    qed
    finally show ?thesis using pos ypos by (simp add: fl_real_def)
  qed
qed

lemma fl_real_mono: "x \<le> y \<Longrightarrow> fl_real x \<le> fl_real y"
proof -
  assume le: "x \<le> y"
  consider "0 < x" | "x \<le> 0" "0 \<le> y" | "y < 0" by linarith
  then show ?thesis
  proof cases
    case 1
    then show ?thesis using le by (rule fl_real_pos_mono)
  next
    case 2
    from 2(1) have "0 \<le> fl_real (- x)" by (intro fl_real_nonneg) simp
    then have "fl_real x \<le> 0" by (simp add: fl_real_uminus)
    with fl_real_nonneg [OF 2(2)] show ?thesis by simp
  next
    case 3
    with le have "fl_real (- y) \<le> fl_real (- x)" by (intro fl_real_pos_mono) simp_all
    then show ?thesis by (simp add: fl_real_uminus)
  qed
qed

lemma exp_1_le: "exp (1::real) \<le> 274 / 100"
proof -
  have "exp (1 / 64 :: real) \<le> 1 + 1 / 64 + (1 / 64)\<^sup>2"
    by (rule exp_bound) simp_all
  then have small: "exp (1 / 64 :: real) \<le> 4161 / 4096"
    by (simp add: power2_eq_square)
  have "exp (1::real) = exp (of_nat 64 * (1 / 64))" by simp
  also have "\<dots> = exp (1 / 64) ^ 64" by (rule exp_of_nat_mult)
  also have "\<dots> \<le> (4161 / 4096) ^ 64"
    using small by (rule power_mono) simp
  also have "\<dots> \<le> 274 / 100" by (simp add: power_divide)
  finally show ?thesis .
qed

lemma exp_700_le: "exp (700::real) \<le> 2 ^ 1020"
proof -
  have "exp (700::real) = exp (of_nat 700 * 1)" by simp
  also have "\<dots> = exp 1 ^ 700" by (rule exp_of_nat_mult)
  also have "\<dots> \<le> (274 / 100) ^ 700"
    using exp_1_le by (rule power_mono) simp
  also have "\<dots> = ((274 / 100) ^ 7) ^ 100" by (simp add: power_mult [symmetric])
  also have "\<dots> \<le> (1160::real) ^ 100"
    by (rule power_mono) (simp_all add: power_divide)
  also have "\<dots> = ((1160::real) ^ 10) ^ 10" by (simp add: power_mult [symmetric])
  also have "\<dots> \<le> ((2::real) ^ 102) ^ 10"
    by (rule power_mono) simp_all
  also have "\<dots> = 2 ^ 1020" by (simp add: power_mult [symmetric])
  finally show ?thesis .
qed

text \<open>Values \<open>m * 2 ^ e\<close> with a 53-bit \<open>m\<close> and \<open>e\<close> from \<open>-1074\<close> are left unchanged.\<close>

lemma fl_real_exact:
  assumes m: "\<bar>m\<bar> < 2 ^ 53" and e: "- 1074 \<le> e"
  shows "fl_real (of_int m * 2 powr (of_int e)) = of_int m * 2 powr (of_int e)"
proof (cases "m = 0")
  case True
  then show ?thesis by (simp add: fl_real_0)
next
  case False
  define x :: real where "x = of_int m * 2 powr (of_int e)"
  have nz: "x \<noteq> 0" using False by (simp add: x_def)
  have absx: "\<bar>x\<bar> = of_int \<bar>m\<bar> * 2 powr (of_int e)"
    by (simp add: x_def abs_mult)
  have "of_int \<bar>m\<bar> < (2 ^ 53 :: real)" using m by (simp flip: of_int_less_iff)
  then have "\<bar>x\<bar> < 2 ^ 53 * 2 powr (of_int e)"
    unfolding absx by (intro mult_strict_right_mono) simp_all
  also have "\<dots> = 2 powr (of_int (e + 53))"
    by (simp add: powr_add)
  finally have "log 2 \<bar>x\<bar> < of_int (e + 53)"
    using nz by (simp add: log_less_iff)
  then have "\<lfloor>log 2 \<bar>x\<bar>\<rfloor> < e + 53" by (simp add: floor_less_iff)
  with e have be: "bexp x - 52 \<le> e" by (simp add: bexp_def)
  define k where "k = nat (e - (bexp x - 52))"
  have ek: "of_int e = of_int (bexp x) - 52 + (of_nat k :: real)"
    using be by (simp add: k_def)
  define u where "u = fl_ulp x"
  have upos: "0 < u" by (simp add: u_def fl_ulp_pos)
  have "2 powr (of_int e) = u * 2 ^ k"
    unfolding ek u_def fl_ulp_def by (simp only: powr_add) (simp add: powr_realpow)
  then have xu: "x = of_int (m * 2 ^ k) * u"
    by (simp add: x_def)
  then have q: "x / u = of_int (m * 2 ^ k)"
    using upos by simp
  have "rne (x / u) = m * 2 ^ k"
    unfolding q by (rule rne_of_int)
  then have "fl_real x = of_int (m * 2 ^ k) * u"
    using nz by (simp add: fl_real_def u_def)
  with xu have "fl_real x = x" by simp
  then show ?thesis by (simp add: x_def)
qed

lemma fl_real_of_int: "\<bar>m\<bar> < 2 ^ 53 \<Longrightarrow> fl_real (of_int m) = of_int m"
  using fl_real_exact [of m 0] by simp

lemma fl_real_numeral [simp]: "numeral w < (2 ^ 53 :: int) \<Longrightarrow> fl_real (numeral w) = numeral w"
  using fl_real_of_int [of "numeral w"] by simp

lemma fl_real_1 [simp]: "fl_real 1 = 1"
  using fl_real_of_int [of 1] by simp

lemma fl_real_pow2: "n \<le> 1023 \<Longrightarrow> fl_real (2 ^ n) = 2 ^ n"
  using fl_real_exact [of 1 "int n"] by (simp add: powr_realpow)

lemma pow2_below_threshold: "n \<le> 1023 \<Longrightarrow> (2::real) ^ n < overflow_threshold"
  unfolding overflow_threshold_def by (intro power_strict_increasing) simp_all

lemma threshold_pos: "0 < overflow_threshold"
  unfolding overflow_threshold_def by (rule zero_less_power) simp

lemma fl_0 [simp]: "fl 0 = Fin 0"
  using threshold_pos by (simp add: fl_def fl_real_0)

lemma fl_in_range:
  "- overflow_threshold < fl_real x \<Longrightarrow> fl_real x < overflow_threshold \<Longrightarrow> fl x = Fin (fl_real x)"
  by (simp add: fl_def Let_def)

lemma fl_pow2: "n \<le> 1023 \<Longrightarrow> fl (2 ^ n) = Fin (2 ^ n)"
proof -
  assume n: "n \<le> 1023"
  have "(0::real) < 2 ^ n" by simp
  with threshold_pos have "- overflow_threshold < fl_real (2 ^ n)"
    unfolding fl_real_pow2 [OF n] by linarith
  moreover have "fl_real (2 ^ n) < overflow_threshold"
    unfolding fl_real_pow2 [OF n] by (rule pow2_below_threshold [OF n])
  ultimately have "fl (2 ^ n) = Fin (fl_real (2 ^ n))" by (rule fl_in_range)
  then show ?thesis by (simp only: fl_real_pow2 [OF n])
qed

lemma fl_exact:
  assumes m: "\<bar>m\<bar> < 2 ^ 53" and e: "- 1074 \<le> e" "e \<le> 970"
  shows "fl (of_int m * 2 powr (of_int e)) = Fin (of_int m * 2 powr (of_int e))"
proof -
  define x :: real where "x = of_int m * 2 powr (of_int e)"
  have ex: "fl_real x = x" unfolding x_def using m e(1) by (rule fl_real_exact)
  have "of_int \<bar>m\<bar> \<le> (2 ^ 53 :: real)" using m by (simp flip: of_int_le_iff)
  moreover have "2 powr (of_int e) \<le> (2::real) powr (of_int 970)"
    using e(2) by (subst powr_le_cancel_iff) simp_all
  ultimately have "of_int \<bar>m\<bar> * 2 powr (of_int e) \<le> (2 ^ 53 :: real) * 2 powr (of_int 970)"
    by (intro mult_mono) simp_all
  also have "\<dots> = 2 powr (of_int 970 + of_nat 53)"
    by (simp only: powr_add powr_realpow zero_less_numeral mult.commute)
  also have "(of_int 970 + of_nat 53 :: real) = of_nat 1023" by simp
  also have "(2::real) powr (of_nat 1023) = 2 ^ 1023"
    by (simp only: powr_realpow zero_less_numeral)
  also have "\<dots> < overflow_threshold" by (rule pow2_below_threshold) simp
  finally have "\<bar>x\<bar> < overflow_threshold" by (simp add: x_def abs_mult)
  then have "- overflow_threshold < fl_real x" "fl_real x < overflow_threshold"
    unfolding ex by linarith+
  then have "fl x = Fin (fl_real x)" by (rule fl_in_range)
  then have "fl x = Fin x" by (simp only: ex)
  then show ?thesis by (simp only: x_def)
qed

lemma fl_of_int: "\<bar>m\<bar> < 2 ^ 53 \<Longrightarrow> fl (of_int m) = Fin (of_int m)"
  using fl_exact [of m 0] by simp

lemma fl_cases: "fl x = Fin (fl_real x) \<or> fl x = PInf \<or> fl x = NInf"
  by (simp add: fl_def Let_def)

lemma fl_not_NaN [simp]: "fl x \<noteq> NaN"
  by (simp add: fl_def Let_def)

lemma fl_mono: "x \<le> y \<Longrightarrow> js_le (fl x) (fl y)"
  using fl_real_mono [of x y] by (auto simp add: fl_def Let_def)

lemma fl_nonneg: "0 \<le> x \<Longrightarrow> js_le (Fin 0) (fl x)"
  using fl_mono [of 0 x] by simp

text \<open>A value between two binary64 values rounds to a value between them.\<close>

lemma fl_between:
  assumes "fl lo = Fin lo" and "fl hi = Fin hi" and "lo \<le> x" and "x \<le> hi"
  shows "fl x = Fin (fl_real x) \<and> lo \<le> fl_real x \<and> fl_real x \<le> hi"
proof -
  from assms(1) have lo: "fl_real lo = lo" "- overflow_threshold < lo"
    by (auto simp add: fl_def Let_def split: if_splits)
  from assms(2) have hi: "fl_real hi = hi" "hi < overflow_threshold"
    by (auto simp add: fl_def Let_def split: if_splits)
  from fl_real_mono [OF assms(3)] fl_real_mono [OF assms(4)] lo hi
  have "lo \<le> fl_real x" "fl_real x \<le> hi" by simp_all
  with lo hi show ?thesis by (simp add: fl_def Let_def)
qed

lemma fl_numeral: "(numeral w :: int) < 2 ^ 53 \<Longrightarrow> fl (numeral w) = Fin (numeral w)"
  using fl_of_int [of "numeral w"] by simp

lemma fl_neg_numeral: "(numeral w :: int) < 2 ^ 53 \<Longrightarrow> fl (- numeral w) = Fin (- numeral w)"
  using fl_of_int [of "- numeral w"] by simp

lemma fl_one: "fl 1 = Fin 1"
  using fl_of_int [of 1] by simp

lemma fl_neg_one: "fl (- 1) = Fin (- 1)"
  using fl_of_int [of "- 1"] by simp

section \<open>Properties of the Gompertz model\<close>

lemma js_le_fl_PInf [simp]: "js_le (fl x) PInf"
  using fl_cases [of x] by auto

lemma js_le_NInf_fl [simp]: "js_le NInf (fl x)"
  using fl_cases [of x] by auto

lemma js_le_not_NaN: "js_le x y \<Longrightarrow> x \<noteq> NaN \<and> y \<noteq> NaN"
  by (cases x; cases y) simp_all

lemma js_sub_mono: "js_le t1 t2 \<Longrightarrow> js_le (js_sub t1 (Fin c)) (js_sub t2 (Fin c))"
  by (cases t1; cases t2) (simp_all add: js_sub_def fl_mono)

lemma js_mul_neg_antimono:
  "0 < b \<Longrightarrow> js_le x y \<Longrightarrow> js_le (js_mul (Fin (- b)) y) (js_mul (Fin (- b)) x)"
  by (cases x; cases y) (simp_all add: signed_inf_def fl_mono)

lemma clamp700_Fin: "x \<noteq> NaN \<Longrightarrow> \<exists>c. clamp700 x = Fin c \<and> - 700 \<le> c \<and> c \<le> 700"
  by (cases x) (simp_all add: clamp700_def)

lemma clamp700_mono: "js_le x y \<Longrightarrow> js_le (clamp700 x) (clamp700 y)"
  by (cases x; cases y) (simp_all add: clamp700_def)

lemma clamp700_nonpos: "x \<le> 0 \<Longrightarrow> \<exists>c. clamp700 (Fin x) = Fin c \<and> - 700 \<le> c \<and> c \<le> 0"
  by (simp add: clamp700_def)

lemma fl_exp_clamped:
  assumes "- 700 \<le> c" "c \<le> 700"
  shows "\<exists>i. fl (exp c) = Fin i \<and> 0 \<le> i \<and> i \<le> 2 ^ 1020"
proof -
  have "exp c \<le> exp 700" using assms by simp
  then have hi: "exp c \<le> 2 ^ 1020" using exp_700_le by linarith
  have "fl (2 ^ 1020) = Fin (2 ^ 1020)"
    by (rule fl_pow2) simp
  from fl_between [OF fl_0 this, of "exp c"] hi show ?thesis by simp
qed

lemma tiny_double: "fl (2 powr (- 1020)) = Fin (2 powr (- 1020))"
  using fl_exact [of 1 "- 1020"] by simp

lemma exp_neg700_ge: "2 powr (- 1020) \<le> exp (- 700 :: real)"
proof -
  have "inverse (2 ^ 1020) \<le> inverse (exp (700::real))"
    using exp_700_le by (intro le_imp_inverse_le) simp_all
  moreover have "inverse ((2::real) ^ 1020) = 2 powr (- 1020)"
    by (simp only: powr_minus powr_numeral zero_le_numeral)
  ultimately show ?thesis by (simp only: exp_minus)
qed

lemma fl_exp_nonpos:
  assumes "- 700 \<le> c" "c \<le> 0"
  shows "\<exists>w. fl (exp c) = Fin w \<and> 2 powr (- 1020) \<le> w \<and> w \<le> 1"
proof -
  have hi: "exp c \<le> 1" using assms by simp
  have "exp (- 700) \<le> exp c" using assms by simp
  with exp_neg700_ge have lo: "2 powr (- 1020) \<le> exp c" by linarith
  have "fl 1 = Fin 1" using fl_pow2 [of 0] by simp
  from fl_between [OF tiny_double this lo hi] show ?thesis by simp
qed

lemma Math_exp_mono: "js_le x y \<Longrightarrow> js_le (Math_exp x) (Math_exp y)"
  by (cases x; cases y) (simp_all add: fl_mono fl_nonneg)

lemma js_neg_antimono: "js_le x y \<Longrightarrow> js_le (js_neg y) (js_neg x)"
  by (cases x; cases y) simp_all

lemma js_mul_pos_mono:
  "0 < K \<Longrightarrow> x \<le> y \<Longrightarrow> js_le (js_mul (Fin K) (Fin x)) (js_mul (Fin K) (Fin y))"
  by (simp add: fl_mono)

lemma exponent_not_NaN:
  assumes "0 < b" "t \<noteq> NaN"
  shows "js_mul (Fin (- b)) (js_sub t (Fin t0)) \<noteq> NaN"
proof (cases t)
  case (Fin r)
  with assms(1) fl_cases [of "r - t0"] show ?thesis
    by (auto simp add: js_sub_def signed_inf_def)
qed (use assms in \<open>simp_all add: js_sub_def signed_inf_def\<close>)

lemma gompertzModel_core:
  assumes K: "0 < K" "K \<le> H" and H: "fl H = Fin H" and b: "0 < b" and t: "t \<noteq> NaN"
  shows "\<exists>v. gompertzModel t (Fin K) (Fin b) (Fin t0) = Fin v \<and> 0 \<le> v \<and> v \<le> H \<and>
             (1 \<le> K \<longrightarrow> 0 < v) \<and> gompertz_core t K b t0 = Fin v"
proof -
  let ?e = "js_mul (Fin (- b)) (js_sub t (Fin t0))"
  from exponent_not_NaN [OF b t] have "?e \<noteq> NaN" .
  from clamp700_Fin [OF this] obtain c where c: "clamp700 ?e = Fin c" "- 700 \<le> c" "c \<le> 700"
    by blast
  from fl_exp_clamped [OF c(2,3)] obtain i where i: "fl (exp c) = Fin i" "0 \<le> i"
    by blast
  from i(2) have "- i \<le> 0" by simp
  from clamp700_nonpos [OF this] obtain d where d: "clamp700 (Fin (- i)) = Fin d" "- 700 \<le> d" "d \<le> 0"
    by blast
  from fl_exp_nonpos [OF d(2,3)] obtain w
    where w: "fl (exp d) = Fin w" "2 powr (- 1020) \<le> w" "w \<le> 1"
    by blast
  have wpos: "0 < w" using w(2) powr_gt_zero [of 2 "- 1020"] by linarith
  have "0 \<le> K * w" using K(1) wpos by simp
  moreover have "K * w \<le> H"
  proof -
    have "K * w \<le> K * 1" using K(1) w(3) by (intro mult_left_mono) simp_all
    with K(2) show ?thesis by simp
  qed
  ultimately have v: "fl (K * w) = Fin (fl_real (K * w))" "0 \<le> fl_real (K * w)" "fl_real (K * w) \<le> H"
    using fl_between [OF fl_0 H, of "K * w"] by simp_all
  have pos: "0 < fl_real (K * w)" if "1 \<le> K"
  proof -
    have "1 * w \<le> K * w" using that wpos by (intro mult_right_mono) simp_all
    with w(2) have "2 powr (- 1020) \<le> K * w" by simp
    from fl_real_mono [OF this] tiny_double have "2 powr (- 1020) \<le> fl_real (K * w)"
      by (simp add: fl_def Let_def split: if_splits)
    with powr_gt_zero [of 2 "- 1020"] show ?thesis by linarith
  qed
  have core: "gompertz_core t K b t0 = Fin (fl_real (K * w))"
    by (simp add: gompertz_core_def c i d w v)
  have "gompertzModel t (Fin K) (Fin b) (Fin t0) = Fin (fl_real (K * w))"
    using K(1) b
    by (simp add: gompertzModel_def Let_def clamp700_def [symmetric] c i d w v)
  with v core pos show ?thesis by simp
qed

lemma gompertz_core_mono:
  assumes K: "0 < K" and b: "0 < b" and le: "js_le t1 t2"
  shows "js_le (gompertz_core t1 K b t0) (gompertz_core t2 K b t0)"
proof -
  let ?e = "\<lambda>t. js_mul (Fin (- b)) (js_sub t (Fin t0))"
  let ?w = "\<lambda>t. Math_exp (clamp700 (js_neg (Math_exp (clamp700 (?e t)))))"
  from le have nn: "t1 \<noteq> NaN" "t2 \<noteq> NaN" using js_le_not_NaN by blast+
  have "js_le (?e t2) (?e t1)"
    using js_mul_neg_antimono [OF b js_sub_mono [OF le]] .
  from Math_exp_mono [OF clamp700_mono [OF this]]
  have "js_le (Math_exp (clamp700 (?e t2))) (Math_exp (clamp700 (?e t1)))" .
  from Math_exp_mono [OF clamp700_mono [OF js_neg_antimono [OF this]]]
  have ww: "js_le (?w t1) (?w t2)" .
  have fin: "\<exists>w. ?w t = Fin w" if "t \<noteq> NaN" for t
  proof -
    from clamp700_Fin [OF exponent_not_NaN [OF b that]]
    obtain c where c: "clamp700 (?e t) = Fin c" "- 700 \<le> c" "c \<le> 700" by blast
    from fl_exp_clamped [OF c(2,3)] obtain i where i: "fl (exp c) = Fin i" "0 \<le> i"
      by blast
    from i(2) have "- i \<le> 0" by simp
    from clamp700_nonpos [OF this] obtain d where d: "clamp700 (Fin (- i)) = Fin d" "- 700 \<le> d" "d \<le> 0"
      by blast
    from fl_exp_nonpos [OF d(2,3)] obtain w where "fl (exp d) = Fin w" by blast
    then show ?thesis by (simp add: c i d)
  qed
  from fin [OF nn(1)] obtain w1 where w1: "?w t1 = Fin w1" ..
  from fin [OF nn(2)] obtain w2 where w2: "?w t2 = Fin w2" ..
  from ww have "w1 \<le> w2" by (simp add: w1 w2)
  from js_mul_pos_mono [OF K this] show ?thesis
    by (simp add: gompertz_core_def w1 w2)
qed

lemma gompertzModel_mono:
  assumes "0 < K" "fl K = Fin K" "0 < b" "js_le t1 t2"
  shows "js_le (gompertzModel t1 (Fin K) (Fin b) (Fin t0)) (gompertzModel t2 (Fin K) (Fin b) (Fin t0))"
proof -
  from assms(4) have nn: "t1 \<noteq> NaN" "t2 \<noteq> NaN" using js_le_not_NaN by blast+
  from gompertzModel_core [OF assms(1) order_refl assms(2,3) nn(1), of t0]
  have 1: "gompertzModel t1 (Fin K) (Fin b) (Fin t0) = gompertz_core t1 K b t0" by auto
  from gompertzModel_core [OF assms(1) order_refl assms(2,3) nn(2), of t0]
  have 2: "gompertzModel t2 (Fin K) (Fin b) (Fin t0) = gompertz_core t2 K b t0" by auto
  show ?thesis unfolding 1 2 using assms by (intro gompertz_core_mono)
qed

lemma gompertzModel_NaN_t: "gompertzModel NaN K b t0 = NaN"
  by (cases "js_neg b") (simp_all add: gompertzModel_def Let_def js_sub_def)

lemma min_double: "fl (2 powr (- 1074)) = Fin (2 powr (- 1074))"
  using fl_exact [of 1 "- 1074"] by simp

lemma fl_real_quarter_ulp: "fl_real (2 powr (- 1076)) = 0"
proof -
  have "log 2 (2 powr (- 1076)) = (- 1076 :: real)" by simp
  then have be: "bexp (2 powr (- 1076)) = - 1022" by (simp add: bexp_def)
  have "(2::real) powr (- 1076) = 2 powr (- 1074 + - 2)" by simp
  also have "\<dots> = 2 powr (- 1074) * 2 powr (- 2)" by (simp only: powr_add)
  finally have "(2::real) powr (- 1076) / 2 powr (- 1074) = 2 powr (- 2)" by simp
  also have "\<dots> = 1 / 4" by (simp add: powr_minus_divide)
  finally have q: "(2::real) powr (- 1076) / fl_ulp (2 powr (- 1076)) = 1 / 4"
    by (simp add: fl_ulp_def be)
  have "rne (1 / 4) = 0" by (simp add: rne_def)
  then show ?thesis by (simp add: fl_real_def q)
qed

lemma fl_underflow: "0 \<le> x \<Longrightarrow> x \<le> 2 powr (- 1076) \<Longrightarrow> fl x = Fin 0"
proof -
  assume x: "0 \<le> x" "x \<le> 2 powr (- 1076)"
  from fl_real_mono [OF x(2)] fl_real_nonneg [OF x(1)] have "fl_real x = 0"
    by (simp add: fl_real_quarter_ulp)
  then show ?thesis using threshold_pos by (simp add: fl_def Let_def)
qed

lemma underflow_example:
  "gompertzModel (Fin (- 1000)) (Fin (2 powr (- 1074))) (Fin 1) (Fin 0) = Fin 0"
proof -
  have "exp (700::real) \<le> 2 ^ 1020" by (rule exp_700_le)
  moreover have "(700::real) \<le> exp 700" using exp_ge_add_one_self [of "700::real"] by linarith
  moreover have "fl 700 = Fin 700" using fl_of_int [of 700] by simp
  moreover have "fl (2 ^ 1020) = Fin (2 ^ 1020)" by (rule fl_pow2) simp
  ultimately obtain i where i: "fl (exp 700) = Fin i" "700 \<le> i"
    using fl_between [of 700 "2 ^ 1020" "exp 700"] by blast
  have "exp (- 700 :: real) \<le> 1 / 4"
  proof -
    have "(4::real) \<le> exp 700" using exp_ge_add_one_self [of "700::real"] by linarith
    then have "inverse (exp (700::real)) \<le> inverse 4" by (intro le_imp_inverse_le) simp_all
    then show ?thesis by (simp add: exp_minus)
  qed
  moreover have "fl (1 / 4) = Fin (1 / 4)"
    using fl_exact [of 1 "- 2"] by (simp add: powr_minus_divide)
  ultimately obtain w where w: "fl (exp (- 700)) = Fin w" "0 \<le> w" "w \<le> 1 / 4"
    using fl_between [OF fl_0, of "1 / 4" "exp (- 700)"] by auto
  have "2 powr (- 1074) * w \<le> 2 powr (- 1074) * (1 / 4)"
    using w(3) by (intro mult_left_mono) simp_all
  also have "\<dots> = 2 powr (- 1074) * 2 powr (- 2)" by (simp add: powr_minus_divide)
  also have "\<dots> = 2 powr (- 1076)" by (simp add: powr_add [symmetric])
  finally have "fl (2 powr (- 1074) * w) = Fin 0"
    using w(2) by (intro fl_underflow) simp_all
  moreover have "fl (- 1000) = Fin (- 1000)" using fl_of_int [of "- 1000"] by simp
  moreover have "fl 1000 = Fin 1000" using fl_of_int [of 1000] by simp
  ultimately show ?thesis
    using i by (simp add: gompertzModel_def Let_def js_sub_def w)
qed


lemma is_double_Fin: "is_double (Fin r) = (fl r = Fin r)"
  by (simp add: is_double_def)

lemma is_double_int: "\<bar>m\<bar> < 2 ^ 53 \<Longrightarrow> is_double (Fin (of_int m))"
  by (simp add: is_double_Fin fl_of_int)

text \<open>
  Claim C5. For a fixed valid parameter triple (\<open>K\<close> a finite positive number, \<open>b\<close>
  finite and positive, \<open>t0\<close> finite) the model is non-decreasing in \<open>t\<close>: \<open>t1 <= t2\<close>
  gives \<open>gompertzModel t1 <= gompertzModel t2\<close>, with the clamping of both exponents
  and the rounding of each operation. That \<open>K\<close> is a binary64 value keeps the final
  product finite.
\<close>

theorem gompertzModel_nondecreasing:
  assumes "is_double K" and "isFinite K" and "js_lt (Fin 0) K"
    and "isFinite b" and "js_lt (Fin 0) b" and "isFinite t0" and "js_le t1 t2"
  shows "js_le (gompertzModel t1 K b t0) (gompertzModel t2 K b t0)"
proof -
  from assms(2,4,6) obtain Kr br t0r where eq: "K = Fin Kr" "b = Fin br" "t0 = Fin t0r"
    by (cases K; cases b; cases t0) simp_all
  from assms(1,3,5) have "0 < Kr" "fl Kr = Fin Kr" "0 < br"
    by (simp_all add: eq is_double_Fin)
  from gompertzModel_mono [OF this assms(7)] show ?thesis
    by (simp add: eq)
qed

theorem gompertzModel_nondecreasing_witness:
  "is_double (Fin 2000) \<and> isFinite (Fin 2000) \<and> js_lt (Fin 0) (Fin 2000) \<and>
   isFinite (Fin 1) \<and> js_lt (Fin 0) (Fin 1) \<and> isFinite (Fin 4) \<and> js_le (Fin 3) (Fin 5) \<and>
   js_le (gompertzModel (Fin 3) (Fin 2000) (Fin 1) (Fin 4))
         (gompertzModel (Fin 5) (Fin 2000) (Fin 1) (Fin 4))"
proof -
  have d: "is_double (Fin 2000)" using is_double_int [of 2000] by simp
  from gompertzModel_nondecreasing [of "Fin 2000" "Fin 1" "Fin 4" "Fin 3" "Fin 5"] d
  show ?thesis by simp
qed

text \<open>
  Claim C8, as stated, fails: for the smallest positive binary64 value \<open>K = 2 ^ -1074\<close>
  (\<open>Number.MIN_VALUE\<close>), \<open>b = 1\<close>, \<open>t0 = 0\<close> and \<open>t = -1000\<close> both exponents are clamped and
  the product \<open>K * exp(-700)\<close> underflows, so the model returns 0, which is neither NaN
  nor strictly positive.
\<close>

theorem gompertzModel_underflow:
  "is_double (Fin (2 powr (- 1074))) \<and> js_lt (Fin 0) (Fin (2 powr (- 1074))) \<and>
   gompertzModel (Fin (- 1000)) (Fin (2 powr (- 1074))) (Fin 1) (Fin 0) = Fin 0 \<and>
   \<not> isNaN (gompertzModel (Fin (- 1000)) (Fin (2 powr (- 1074))) (Fin 1) (Fin 0)) \<and>
   \<not> js_lt (Fin 0) (gompertzModel (Fin (- 1000)) (Fin (2 powr (- 1074))) (Fin 1) (Fin 0))"
  by (simp add: underflow_example is_double_Fin min_double)

text \<open>
  Claim C8, amended. For every \<open>t\<close> and every finite parameter triple with \<open>K > 0\<close> and
  \<open>b > 0\<close>, the model returns NaN or a value \<open>v\<close> with \<open>0 <= v <= K\<close>; \<open>v\<close> is strictly
  positive when \<open>K >= 1\<close>.
\<close>

theorem gompertzModel_range:
  assumes "is_double K" and "isFinite K" and "js_lt (Fin 0) K"
    and "isFinite b" and "js_lt (Fin 0) b" and "isFinite t0"
  shows "gompertzModel t K b t0 = NaN \<or>
         (js_le (Fin 0) (gompertzModel t K b t0) \<and> js_le (gompertzModel t K b t0) K \<and>
          (js_le (Fin 1) K \<longrightarrow> js_lt (Fin 0) (gompertzModel t K b t0)))"
proof (cases "t = NaN")
  case True
  then show ?thesis by (simp add: gompertzModel_NaN_t)
next
  case False
  from assms(2,4,6) obtain Kr br t0r where eq: "K = Fin Kr" "b = Fin br" "t0 = Fin t0r"
    by (cases K; cases b; cases t0) simp_all
  from assms(1,3,5) have "0 < Kr" "fl Kr = Fin Kr" "0 < br"
    by (simp_all add: eq is_double_Fin)
  from gompertzModel_core [OF this(1) order_refl this(2,3) False, of t0r]
  show ?thesis by (auto simp add: eq)
qed

theorem gompertzModel_range_witness:
  "is_double (Fin 2000) \<and> isFinite (Fin 2000) \<and> js_lt (Fin 0) (Fin 2000) \<and>
   isFinite (Fin 1) \<and> js_lt (Fin 0) (Fin 1) \<and> isFinite (Fin 4) \<and> js_le (Fin 1) (Fin 2000) \<and>
   js_lt (Fin 0) (gompertzModel (Fin 3) (Fin 2000) (Fin 1) (Fin 4)) \<and>
   js_le (gompertzModel (Fin 3) (Fin 2000) (Fin 1) (Fin 4)) (Fin 2000)"
proof -
  have d: "is_double (Fin 2000)" using is_double_int [of 2000] by simp
  then have "fl 2000 = Fin 2000" by (simp add: is_double_Fin)
  from gompertzModel_core [of 2000 2000 1 "Fin 3" 4, OF _ _ this]
  have "gompertzModel (Fin 3) (Fin 2000) (Fin 1) (Fin 4) \<noteq> NaN" by auto
  with gompertzModel_range [of "Fin 2000" "Fin 1" "Fin 4" "Fin 3"] d
  show ?thesis by simp
qed

section \<open>Properties of the intervention model\<close>

lemma gompertzModel_finite_or_NaN:
  "isFinite (gompertzModel t K b t0) \<or> gompertzModel t K b t0 = NaN"
  by (simp add: gompertzModel_def Let_def)

text \<open>
  Claim C2. Before the launch quarter, that is when \<open>t < launchQuarter\<close> holds,
  \<open>applyIntervention\<close> returns the baseline value it was given, whatever the fitted
  parameters and the scenario parameters are.
\<close>

theorem applyIntervention_before_launch:
  "js_lt t launchQuarter \<Longrightarrow>
   applyIntervention t baselineValue params interventionParams launchQuarter = baselineValue"
  by (simp add: applyIntervention_def)

theorem applyIntervention_before_launch_witness:
  "js_lt (Fin 3) (Fin 21) \<and>
   applyIntervention (Fin 3) (Fin 1500)
     \<lparr>p_K = Fin 2000, p_b = Fin 1, p_t0 = Fin 4\<rparr>
     \<lparr>alpha = Fin 1, delta_t = Fin 1, kappa = Fin 1, half_life = Fin 8,
      window_length = Fin 8, expansion_length = Fin 10\<rparr>
     (Fin 21) = Fin 1500"
  using applyIntervention_before_launch [of "Fin 3" "Fin 21" "Fin 1500"
    "\<lparr>p_K = Fin 2000, p_b = Fin 1, p_t0 = Fin 4\<rparr>"
    "\<lparr>alpha = Fin 1, delta_t = Fin 1, kappa = Fin 1, half_life = Fin 8,
      window_length = Fin 8, expansion_length = Fin 10\<rparr>"]
  by simp

text \<open>
  Claim C9. When the baseline value or the time index is not finite,
  \<open>applyIntervention\<close> returns the baseline value unchanged for every parameter record,
  scenario and launch quarter; in particular a NaN baseline comes back as NaN.
\<close>

theorem applyIntervention_nonfinite_input:
  "\<not> isFinite baselineValue \<or> \<not> isFinite t \<Longrightarrow>
   applyIntervention t baselineValue params interventionParams launchQuarter = baselineValue"
  by (auto simp add: applyIntervention_def)

theorem applyIntervention_nonfinite_input_witness:
  "\<not> isFinite NaN \<and>
   applyIntervention (Fin 25) NaN
     \<lparr>p_K = Fin 2000, p_b = Fin 1, p_t0 = Fin 4\<rparr>
     \<lparr>alpha = Fin 1, delta_t = Fin 1, kappa = Fin 1, half_life = Fin 8,
      window_length = Fin 8, expansion_length = Fin 10\<rparr>
     (Fin 21) = NaN"
  using applyIntervention_nonfinite_input [of NaN "Fin 25"
    "\<lparr>p_K = Fin 2000, p_b = Fin 1, p_t0 = Fin 4\<rparr>"
    "\<lparr>alpha = Fin 1, delta_t = Fin 1, kappa = Fin 1, half_life = Fin 8,
      window_length = Fin 8, expansion_length = Fin 10\<rparr>" "Fin 21"]
  by simp

lemma acceleration_factor_decay:
  "acceleration_factor tSinceLaunch sp =
     (if js_lt tSinceLaunch (window_length sp) then
        if \<not> isFinite (decayFactor tSinceLaunch sp) then Fin 1
        else js_add (Fin 1) (js_mul (Math_min (lit (1 / 2)) (Math_max (Fin 0) (alpha sp)))
               (decayFactor tSinceLaunch sp))
      else Fin 1)"
  by (simp add: acceleration_factor_def decayFactor_def Let_def)

lemma capacity_factor_smoother:
  "capacity_factor tSinceLaunch sp =
     (if js_lt tSinceLaunch (expansion_length sp) then
        if \<not> isFinite (expansionSmoother tSinceLaunch sp) then Fin 1
        else js_add (Fin 1) (js_mul (Math_min (lit (2 / 10)) (Math_max (Fin 0) (kappa sp)))
               (expansionSmoother tSinceLaunch sp))
      else js_add (Fin 1) (Math_min (lit (2 / 10)) (Math_max (Fin 0) (kappa sp))))"
  by (simp add: capacity_factor_def expansionSmoother_def Let_def)

lemma applyIntervention_adjusted:
  "applyIntervention t baselineValue params interventionParams launchQuarter =
     (if \<not> isFinite t \<or> \<not> isFinite baselineValue then baselineValue
      else if \<not> isFinite (p_K params) \<or> \<not> isFinite (p_b params) \<or> \<not> isFinite (p_t0 params)
        then baselineValue
      else if js_lt t launchQuarter then baselineValue
      else if \<not> isFinite (acceleration_factor (js_sub t launchQuarter) interventionParams) \<or>
              \<not> isFinite (capacity_factor (js_sub t launchQuarter) interventionParams)
        then baselineValue
      else
        let adj = adjusted_params t params interventionParams launchQuarter
        in if \<not> isFinite (p_K adj) \<or> \<not> isFinite (p_b adj) \<or> \<not> isFinite (p_t0 adj)
           then baselineValue
           else if \<not> isFinite (gompertzModel t (p_K adj) (p_b adj) (p_t0 adj)) then baselineValue
           else gompertzModel t (p_K adj) (p_b adj) (p_t0 adj))"
  by (simp add: applyIntervention_def adjusted_params_def Let_def)

lemma Math_log_2: "\<exists>l. Math_log (Fin 2) = Fin l"
proof -
  have "0 \<le> ln (2::real)" by simp
  moreover have "ln (2::real) \<le> 1" using ln_le_minus_one [of "2::real"] by simp
  ultimately show ?thesis
    using fl_between [OF fl_0 fl_one, of "ln 2"] by simp
qed

lemma lit_fifth: "\<exists>r. lit (2 / 10) = Fin r \<and> 0 \<le> r \<and> r \<le> 1"
  using fl_between [OF fl_0 fl_one, of "2 / 10"] by (simp add: lit_def)

lemma decayFactor_zero_half_life:
  "decayFactor (js_sub (Fin 21) (Fin 21)) (sp\<lparr>half_life := Fin 0\<rparr>) = NaN"
proof -
  from Math_log_2 obtain l where "Math_log (Fin 2) = Fin l" by blast
  then show ?thesis
    by (simp add: decayFactor_def js_sub_def Let_def del: Math_log.simps)
qed

lemma acceleration_zero_half_life:
  "acceleration_factor (js_sub (Fin 21) (Fin 21))
     \<lparr>alpha = Fin 1, delta_t = Fin 1, kappa = Fin 1, half_life = Fin 0,
      window_length = Fin 8, expansion_length = Fin 10\<rparr> = Fin 1"
  using decayFactor_zero_half_life [of "\<lparr>alpha = Fin 1, delta_t = Fin 1, kappa = Fin 1,
      half_life = Fin 0, window_length = Fin 8, expansion_length = Fin 10\<rparr>"]
  by (simp add: acceleration_factor_decay)

lemma capacity_at_launch:
  "capacity_factor (js_sub (Fin 21) (Fin 21))
     \<lparr>alpha = Fin 1, delta_t = Fin 1, kappa = Fin 1, half_life = Fin 0,
      window_length = Fin 8, expansion_length = Fin 10\<rparr> = Fin 1"
proof -
  from lit_fifth obtain r where r: "lit (2 / 10) = Fin r" "0 \<le> r" "r \<le> 1" by blast
  have "lit (1 / 5) = Fin r" using r(1) by simp
  then show ?thesis
    using r(2,3)
    by (simp add: capacity_factor_def js_sub_def Let_def fl_numeral fl_neg_numeral fl_one fl_neg_one)
qed

lemma adjusted_at_launch:
  "adjusted_params (Fin 21) \<lparr>p_K = Fin 2000, p_b = Fin 1, p_t0 = Fin 4\<rparr>
     \<lparr>alpha = Fin 1, delta_t = Fin 1, kappa = Fin 1, half_life = Fin 0,
      window_length = Fin 8, expansion_length = Fin 10\<rparr> (Fin 21) =
   \<lparr>p_K = Fin 2000, p_b = Fin 1, p_t0 = Fin 3\<rparr>"
  unfolding adjusted_params_def Let_def acceleration_zero_half_life capacity_at_launch
  by (simp add: js_sub_def fl_numeral fl_neg_numeral fl_one fl_neg_one)

lemma model_at_launch:
  "\<exists>v. gompertzModel (Fin 21) (Fin 2000) (Fin 1) (Fin 3) = Fin v \<and> 1750 \<le> v"
proof -
  have e18: "exp (- 18 :: real) \<le> 1 / 8"
  proof -
    have "1 + (18::real) \<le> exp 18" by (rule exp_ge_add_one_self)
    then have "8 \<le> exp (18::real)" by simp
    then have "inverse (exp (18::real)) \<le> inverse 8"
      by (intro le_imp_inverse_le) simp_all
    then show ?thesis by (simp add: exp_minus)
  qed
  have eighth: "fl (1 / 8) = Fin (1 / 8)"
    using fl_exact [of 1 "- 3"] by (simp add: powr_minus_divide)
  from fl_between [OF fl_0 eighth, of "exp (- 18)"] e18
  obtain i where i: "fl (exp (- 18)) = Fin i" "0 \<le> i" "i \<le> 1 / 8" by simp
  have lo: "7 / 8 \<le> exp (- i)"
    using exp_ge_add_one_self [of "- i"] i(3) by simp
  have hi: "exp (- i) \<le> 1" using i(2) by simp
  have seven: "fl (7 / 8) = Fin (7 / 8)"
    using fl_exact [of 7 "- 3"] by (simp add: powr_minus_divide)
  from fl_between [OF seven fl_one lo hi]
  obtain w where w: "fl (exp (- i)) = Fin w" "7 / 8 \<le> w" "w \<le> 1" by simp
  have "fl 1750 = Fin 1750" "fl 2000 = Fin 2000" by (simp_all add: fl_numeral fl_neg_numeral fl_one fl_neg_one)
  from fl_between [OF this, of "2000 * w"] w(2,3)
  obtain v where v: "fl (2000 * w) = Fin v" "1750 \<le> v" by simp
  have "gompertzModel (Fin 21) (Fin 2000) (Fin 1) (Fin 3) = Fin v"
    using i w v by (simp add: gompertzModel_def Let_def js_sub_def fl_numeral fl_neg_numeral fl_one fl_neg_one)
  with v(2) show ?thesis by simp
qed

lemma intervention_at_launch:
  "\<exists>v. applyIntervention (Fin 21) (Fin 1500) \<lparr>p_K = Fin 2000, p_b = Fin 1, p_t0 = Fin 4\<rparr>
     \<lparr>alpha = Fin 1, delta_t = Fin 1, kappa = Fin 1, half_life = Fin 0,
      window_length = Fin 8, expansion_length = Fin 10\<rparr> (Fin 21) = Fin v \<and> 1750 \<le> v"
proof -
  from model_at_launch obtain v
    where "gompertzModel (Fin 21) (Fin 2000) (Fin 1) (Fin 3) = Fin v" "1750 \<le> v" by blast
  then show ?thesis
    unfolding applyIntervention_adjusted adjusted_at_launch Let_def
      acceleration_zero_half_life capacity_at_launch
    by simp
qed

text \<open>
  Claim C4, as stated, fails in its second half: a decay factor that is not finite does
  not make \<open>applyIntervention\<close> return the baseline value. With \<open>half_life = 0\<close> at the
  launch quarter itself the decay exponent is \<open>0 / 0\<close>, the decay factor is NaN, the code
  resets the acceleration factor to 1 and goes on: for the baseline value 1500 and the
  parameters \<open>K = 2000\<close>, \<open>b = 1\<close>, \<open>t0 = 4\<close> it returns the value of the model, which is
  at least 1750.
\<close>

theorem applyIntervention_decay_not_baseline:
  "isFinite (Fin 21) \<and> isFinite (Fin 1500) \<and>
   isFinite (Fin 2000) \<and> js_gt (Fin 2000) (Fin 0) \<and> isFinite (Fin 1) \<and> js_gt (Fin 1) (Fin 0) \<and>
   isFinite (Fin 4) \<and>
   \<not> isFinite (decayFactor (js_sub (Fin 21) (Fin 21))
     \<lparr>alpha = Fin 1, delta_t = Fin 1, kappa = Fin 1, half_life = Fin 0,
      window_length = Fin 8, expansion_length = Fin 10\<rparr>) \<and>
   applyIntervention (Fin 21) (Fin 1500) \<lparr>p_K = Fin 2000, p_b = Fin 1, p_t0 = Fin 4\<rparr>
     \<lparr>alpha = Fin 1, delta_t = Fin 1, kappa = Fin 1, half_life = Fin 0,
      window_length = Fin 8, expansion_length = Fin 10\<rparr> (Fin 21) \<noteq> Fin 1500"
proof -
  have "decayFactor (js_sub (Fin 21) (Fin 21))
     \<lparr>alpha = Fin 1, delta_t = Fin 1, kappa = Fin 1, half_life = Fin 0,
      window_length = Fin 8, expansion_length = Fin 10\<rparr> = NaN"
    using decayFactor_zero_half_life [of "\<lparr>alpha = Fin 1, delta_t = Fin 1, kappa = Fin 1,
      half_life = Fin 0, window_length = Fin 8, expansion_length = Fin 10\<rparr>"] by simp
  moreover from intervention_at_launch obtain v where
    "applyIntervention (Fin 21) (Fin 1500) \<lparr>p_K = Fin 2000, p_b = Fin 1, p_t0 = Fin 4\<rparr>
     \<lparr>alpha = Fin 1, delta_t = Fin 1, kappa = Fin 1, half_life = Fin 0,
      window_length = Fin 8, expansion_length = Fin 10\<rparr> (Fin 21) = Fin v" "1750 \<le> v"
    by blast
  ultimately show ?thesis by simp
qed

text \<open>
  Claim C4, amended. For a finite time index and a finite baseline value,
  \<open>applyIntervention\<close> returns a finite number, never NaN, for every parameter record,
  every scenario record, a zero \<open>half_life\<close> included, and every launch quarter. It
  returns the baseline value when the acceleration factor, the capacity factor, an
  adjusted parameter or the value of the model is not finite. A decay factor that is not
  finite only resets the acceleration factor to 1, and an expansion smoother that is not
  finite only resets the capacity factor to 1; the result is then, as whenever all these
  checks pass from the launch quarter on, the value of the model for the adjusted
  parameters. No other value than these two is returned.
\<close>

theorem applyIntervention_finite:
  assumes "isFinite t" and "isFinite baselineValue"
  shows "isFinite (applyIntervention t baselineValue params interventionParams launchQuarter) \<and>
    \<not> isNaN (applyIntervention t baselineValue params interventionParams launchQuarter) \<and>
    (\<not> isFinite (acceleration_factor (js_sub t launchQuarter) interventionParams) \<or>
     \<not> isFinite (capacity_factor (js_sub t launchQuarter) interventionParams) \<or>
     \<not> isFinite (p_K (adjusted_params t params interventionParams launchQuarter)) \<or>
     \<not> isFinite (p_b (adjusted_params t params interventionParams launchQuarter)) \<or>
     \<not> isFinite (p_t0 (adjusted_params t params interventionParams launchQuarter)) \<or>
     \<not> isFinite (gompertzModel t
          (p_K (adjusted_params t params interventionParams launchQuarter))
          (p_b (adjusted_params t params interventionParams launchQuarter))
          (p_t0 (adjusted_params t params interventionParams launchQuarter)))
     \<longrightarrow> applyIntervention t baselineValue params interventionParams launchQuarter = baselineValue) \<and>
    (\<not> isFinite (decayFactor (js_sub t launchQuarter) interventionParams)
     \<longrightarrow> acceleration_factor (js_sub t launchQuarter) interventionParams = Fin 1) \<and>
    (js_lt (js_sub t launchQuarter) (expansion_length interventionParams) \<and>
     \<not> isFinite (expansionSmoother (js_sub t launchQuarter) interventionParams)
     \<longrightarrow> capacity_factor (js_sub t launchQuarter) interventionParams = Fin 1) \<and>
    (isFinite (p_K params) \<and> isFinite (p_b params) \<and> isFinite (p_t0 params) \<and>
     \<not> js_lt t launchQuarter \<and>
     isFinite (acceleration_factor (js_sub t launchQuarter) interventionParams) \<and>
     isFinite (capacity_factor (js_sub t launchQuarter) interventionParams) \<and>
     isFinite (p_K (adjusted_params t params interventionParams launchQuarter)) \<and>
     isFinite (p_b (adjusted_params t params interventionParams launchQuarter)) \<and>
     isFinite (p_t0 (adjusted_params t params interventionParams launchQuarter)) \<and>
     isFinite (gompertzModel t
          (p_K (adjusted_params t params interventionParams launchQuarter))
          (p_b (adjusted_params t params interventionParams launchQuarter))
          (p_t0 (adjusted_params t params interventionParams launchQuarter)))
     \<longrightarrow> applyIntervention t baselineValue params interventionParams launchQuarter =
       gompertzModel t
          (p_K (adjusted_params t params interventionParams launchQuarter))
          (p_b (adjusted_params t params interventionParams launchQuarter))
          (p_t0 (adjusted_params t params interventionParams launchQuarter))) \<and>
    (applyIntervention t baselineValue params interventionParams launchQuarter = baselineValue \<or>
     applyIntervention t baselineValue params interventionParams launchQuarter =
       gompertzModel t
          (p_K (adjusted_params t params interventionParams launchQuarter))
          (p_b (adjusted_params t params interventionParams launchQuarter))
          (p_t0 (adjusted_params t params interventionParams launchQuarter)))"
proof -
  let ?r = "applyIntervention t baselineValue params interventionParams launchQuarter"
  let ?adj = "adjusted_params t params interventionParams launchQuarter"
  let ?m = "gompertzModel t (p_K ?adj) (p_b ?adj) (p_t0 ?adj)"
  have finite: "isFinite ?r"
    using assms by (simp add: applyIntervention_adjusted Let_def)
  then have no_NaN: "\<not> isNaN ?r"
    by (cases ?r) simp_all
  have fallback: "\<not> isFinite (acceleration_factor (js_sub t launchQuarter) interventionParams) \<or>
     \<not> isFinite (capacity_factor (js_sub t launchQuarter) interventionParams) \<or>
     \<not> isFinite (p_K ?adj) \<or> \<not> isFinite (p_b ?adj) \<or> \<not> isFinite (p_t0 ?adj) \<or>
     \<not> isFinite ?m \<longrightarrow> ?r = baselineValue"
    by (simp add: applyIntervention_adjusted Let_def)
  have decay: "\<not> isFinite (decayFactor (js_sub t launchQuarter) interventionParams)
     \<longrightarrow> acceleration_factor (js_sub t launchQuarter) interventionParams = Fin 1"
    by (simp add: acceleration_factor_decay)
  have smoother: "js_lt (js_sub t launchQuarter) (expansion_length interventionParams) \<and>
     \<not> isFinite (expansionSmoother (js_sub t launchQuarter) interventionParams)
     \<longrightarrow> capacity_factor (js_sub t launchQuarter) interventionParams = Fin 1"
    by (simp add: capacity_factor_smoother)
  have model: "isFinite (p_K params) \<and> isFinite (p_b params) \<and> isFinite (p_t0 params) \<and>
     \<not> js_lt t launchQuarter \<and>
     isFinite (acceleration_factor (js_sub t launchQuarter) interventionParams) \<and>
     isFinite (capacity_factor (js_sub t launchQuarter) interventionParams) \<and>
     isFinite (p_K ?adj) \<and> isFinite (p_b ?adj) \<and> isFinite (p_t0 ?adj) \<and> isFinite ?m
     \<longrightarrow> ?r = ?m"
    using assms by (simp add: applyIntervention_adjusted Let_def)
  have either: "?r = baselineValue \<or> ?r = ?m"
    by (simp add: applyIntervention_adjusted Let_def)
  from finite no_NaN fallback decay smoother model either show ?thesis
    by (intro conjI)
qed

lemma capacity_NaN_kappa:
  "capacity_factor (js_sub (Fin 40) (Fin 21))
     \<lparr>alpha = Fin 1, delta_t = Fin 1, kappa = NaN, half_life = Fin 8,
      window_length = Fin 8, expansion_length = Fin 10\<rparr> = NaN"
proof -
  from lit_fifth obtain r where r: "lit (2 / 10) = Fin r" by blast
  have "lit (1 / 5) = Fin r" using r(1) by simp
  then show ?thesis
    by (simp add: capacity_factor_def js_sub_def Let_def fl_numeral fl_neg_numeral fl_one fl_neg_one)
qed

theorem applyIntervention_finite_witness:
  "isFinite (Fin 21) \<and> isFinite (Fin 40) \<and> isFinite (Fin 1500) \<and>
   \<not> isFinite (decayFactor (js_sub (Fin 21) (Fin 21))
     \<lparr>alpha = Fin 1, delta_t = Fin 1, kappa = Fin 1, half_life = Fin 0,
      window_length = Fin 8, expansion_length = Fin 10\<rparr>) \<and>
   acceleration_factor (js_sub (Fin 21) (Fin 21))
     \<lparr>alpha = Fin 1, delta_t = Fin 1, kappa = Fin 1, half_life = Fin 0,
      window_length = Fin 8, expansion_length = Fin 10\<rparr> = Fin 1 \<and>
   isFinite (applyIntervention (Fin 21) (Fin 1500) \<lparr>p_K = Fin 2000, p_b = Fin 1, p_t0 = Fin 4\<rparr>
     \<lparr>alpha = Fin 1, delta_t = Fin 1, kappa = Fin 1, half_life = Fin 0,
      window_length = Fin 8, expansion_length = Fin 10\<rparr> (Fin 21)) \<and>
   \<not> isFinite (capacity_factor (js_sub (Fin 40) (Fin 21))
     \<lparr>alpha = Fin 1, delta_t = Fin 1, kappa = NaN, half_life = Fin 8,
      window_length = Fin 8, expansion_length = Fin 10\<rparr>) \<and>
   applyIntervention (Fin 40) (Fin 1500) \<lparr>p_K = Fin 2000, p_b = Fin 1, p_t0 = Fin 4\<rparr>
     \<lparr>alpha = Fin 1, delta_t = Fin 1, kappa = NaN, half_life = Fin 8,
      window_length = Fin 8, expansion_length = Fin 10\<rparr> (Fin 21) = Fin 1500"
proof -
  have decay: "\<not> isFinite (decayFactor (js_sub (Fin 21) (Fin 21))
     \<lparr>alpha = Fin 1, delta_t = Fin 1, kappa = Fin 1, half_life = Fin 0,
      window_length = Fin 8, expansion_length = Fin 10\<rparr>)"
    using decayFactor_zero_half_life [of "\<lparr>alpha = Fin 1, delta_t = Fin 1, kappa = Fin 1,
      half_life = Fin 0, window_length = Fin 8, expansion_length = Fin 10\<rparr>"] by simp
  have cap: "\<not> isFinite (capacity_factor (js_sub (Fin 40) (Fin 21))
     \<lparr>alpha = Fin 1, delta_t = Fin 1, kappa = NaN, half_life = Fin 8,
      window_length = Fin 8, expansion_length = Fin 10\<rparr>)"
    by (simp only: capacity_NaN_kappa isFinite.simps not_False_eq_True)
  from applyIntervention_finite [of "Fin 21" "Fin 1500"
      "\<lparr>p_K = Fin 2000, p_b = Fin 1, p_t0 = Fin 4\<rparr>"
      "\<lparr>alpha = Fin 1, delta_t = Fin 1, kappa = Fin 1, half_life = Fin 0,
        window_length = Fin 8, expansion_length = Fin 10\<rparr>" "Fin 21"] decay
  have a: "acceleration_factor (js_sub (Fin 21) (Fin 21))
     \<lparr>alpha = Fin 1, delta_t = Fin 1, kappa = Fin 1, half_life = Fin 0,
      window_length = Fin 8, expansion_length = Fin 10\<rparr> = Fin 1"
    and b: "isFinite (applyIntervention (Fin 21) (Fin 1500) \<lparr>p_K = Fin 2000, p_b = Fin 1, p_t0 = Fin 4\<rparr>
     \<lparr>alpha = Fin 1, delta_t = Fin 1, kappa = Fin 1, half_life = Fin 0,
      window_length = Fin 8, expansion_length = Fin 10\<rparr> (Fin 21))"
    by simp_all
  from applyIntervention_finite [of "Fin 40" "Fin 1500"
      "\<lparr>p_K = Fin 2000, p_b = Fin 1, p_t0 = Fin 4\<rparr>"
      "\<lparr>alpha = Fin 1, delta_t = Fin 1, kappa = NaN, half_life = Fin 8,
        window_length = Fin 8, expansion_length = Fin 10\<rparr>" "Fin 21"] cap
  have c: "applyIntervention (Fin 40) (Fin 1500) \<lparr>p_K = Fin 2000, p_b = Fin 1, p_t0 = Fin 4\<rparr>
     \<lparr>alpha = Fin 1, delta_t = Fin 1, kappa = NaN, half_life = Fin 8,
      window_length = Fin 8, expansion_length = Fin 10\<rparr> (Fin 21) = Fin 1500"
    by simp
  from decay cap a b c show ?thesis by simp
qed

section \<open>Properties of the fit\<close>

lemma r_squared_range:
  "isFinite (r_squared ssRes ssTot) \<Longrightarrow>
   js_le (Fin 0) (r_squared ssRes ssTot) \<and> js_le (r_squared ssRes ssTot) (Fin 1)"
  by (cases "js_sub (Fin 1) (js_div ssRes ssTot)") (auto simp add: r_squared_def split: if_splits)

lemma residuals_flag:
  "residuals bp mean i ds (ssRes, ssTot, flag) = (ssRes', ssTot', False) \<Longrightarrow>
   \<not> flag \<and> (\<forall>j < length ds.
      isFinite (gompertzModel (js_of_nat (i + j)) (p_K bp) (p_b bp) (p_t0 bp)))"
proof (induction ds arbitrary: i ssRes ssTot flag)
  case Nil
  then show ?case by simp
next
  case (Cons d ds)
  let ?pred = "gompertzModel (js_of_nat i) (p_K bp) (p_b bp) (p_t0 bp)"
  show ?case
  proof (cases "isFinite ?pred")
    case False
    with Cons.prems have "residuals bp mean (Suc i) ds (ssRes, ssTot, True) = (ssRes', ssTot', False)"
      by simp
    from Cons.IH [OF this] show ?thesis by simp
  next
    case True
    with Cons.prems have
      "residuals bp mean (Suc i) ds
         (js_add ssRes (Math_pow2 (js_sub d ?pred)), js_add ssTot (Math_pow2 (js_sub d mean)), flag)
       = (ssRes', ssTot', False)"
      by (simp add: Let_def)
    from Cons.IH [OF this] have nf: "\<not> flag" and rest: "\<forall>j < length ds.
      isFinite (gompertzModel (js_of_nat (Suc i + j)) (p_K bp) (p_b bp) (p_t0 bp))"
      by simp_all
    have "isFinite (gompertzModel (js_of_nat (i + j)) (p_K bp) (p_b bp) (p_t0 bp))"
      if "j < length (d # ds)" for j
    proof (cases j)
      case 0
      with True show ?thesis by simp
    next
      case (Suc k)
      with that rest show ?thesis by simp
    qed
    with nf show ?thesis by blast
  qed
qed

lemma lit_Fin: "\<bar>c\<bar> \<le> 4 \<Longrightarrow> lit c = Fin (fl_real c) \<and> \<bar>fl_real c\<bar> \<le> 4"
proof -
  assume c: "\<bar>c\<bar> \<le> 4"
  have "fl (- 4) = Fin (- 4)" "fl 4 = Fin 4"
    using fl_of_int [of "- 4"] fl_of_int [of 4] by simp_all
  from fl_between [OF this, of c] c show ?thesis
    by (simp add: lit_def abs_le_iff)
qed

lemma js_mul_zero_lit: "\<bar>c\<bar> \<le> 4 \<Longrightarrow> js_mul (Fin 0) (lit c) = Fin 0"
  using lit_Fin [of c] by simp

lemma fl_real_half: "fl_real (1 / 2) = 1 / 2"
  using fl_real_exact [of 1 "- 1"] by (simp add: powr_minus_divide)

lemma max_zeros8: "Math_max_list zeros8 = Fin 0"
  by (simp add: Math_max_list_def zeros8_def)

lemma grid_zeros8: "grid_search zeros8 n (Fin 0) = (None, PInf)"
  by (simp add: grid_search_def K_steps_def grid_K_def js_mul_zero_lit)

lemma refine_zero_K: "refine k zeros8 n m \<lparr>p_K = Fin 0, p_b = b, p_t0 = t0\<rparr> = \<lparr>p_K = Fin 0, p_b = b, p_t0 = t0\<rparr>"
  by (cases k) (simp_all add: refine_step_def zeros8_def gompertzModel_def)

lemma fit_params_quality: "fit_params (fit_quality data n bp) = bp"
  by (simp add: fit_quality_def Let_def split: prod.splits)

lemma adjust_params_K:
  "p_K (adjust_params m bp) = (if js_le (p_K bp) m then js_mul m (lit (12 / 10)) else p_K bp)"
  by (simp add: adjust_params_def Let_def)

lemma adjust_params_t0: "p_t0 (adjust_params m bp) = p_t0 bp"
  by (simp add: adjust_params_def Let_def)

lemma fit_zeros8:
  "map_option (\<lambda>r. p_K (fit_params r)) (fitGompertzCurve zeros8) = Some (Fin 0)"
proof -
  have b: "isFinite (lit (2 / 10))" using lit_Fin [of "2 / 10"] by simp
  have "lit (5 / 10) = Fin (1 / 2)" using lit_Fin [of "5 / 10"] by (simp add: fl_real_half)
  then have t0: "js_mul (js_of_nat (length zeros8)) (lit (5 / 10)) = Fin 4"
    using fl_of_int [of 4] by (simp add: zeros8_def js_of_nat_def)
  define bp where "bp = \<lparr>p_K = Fin 0, p_b = lit (2 / 10), p_t0 = Fin 4\<rparr>"
  have "fitGompertzCurve zeros8 =
      Some (fit_quality zeros8 (js_of_nat (length zeros8)) (adjust_params (Fin 0) bp))"
    unfolding fitGompertzCurve_def Let_def max_zeros8 grid_zeros8 t0
    using b by (simp add: js_mul_zero_lit refine_zero_K bp_def)
  then show ?thesis
    by (simp add: fit_params_quality adjust_params_K bp_def js_mul_zero_lit)
qed

lemma foldl_invariant:
  assumes "P s" and "\<And>s x. x \<in> set xs \<Longrightarrow> P s \<Longrightarrow> P (f s x)"
  shows "P (foldl f s xs)"
  using assms by (induction xs arbitrary: s) simp_all

lemma grid_search_candidate:
  assumes "fst (grid_search data n m) = Some bp"
  shows "grid_candidate data n m bp"
proof -
  let ?P = "\<lambda>best :: search_state. \<forall>bp. fst best = Some bp \<longrightarrow> grid_candidate data n m bp"
  have t0: "?P (grid_t0 data (js_mul m k) b best t0)"
    if "?P best" "k \<in> set K_steps" "b \<in> set b_steps" "t0 \<in> set (t0_steps n)"
       "\<not> js_le (js_mul m k) m" for best k b t0
    using that by (auto simp add: grid_t0_def grid_candidate_def split: option.splits)
  have b: "?P (grid_b data (t0_steps n) (js_mul m k) best b)"
    if best: "?P best" and k: "k \<in> set K_steps" "\<not> js_le (js_mul m k) m"
      and b: "b \<in> set b_steps" for best k b
  proof (cases "js_le b (Fin 0) \<or> js_gt b (Fin 1)")
    case True
    with best show ?thesis by (simp add: grid_b_def)
  next
    case False
    have "?P (foldl (grid_t0 data (js_mul m k) b) best (t0_steps n))"
      using best by (rule foldl_invariant) (rule t0 [OF _ k(1) b _ k(2)])
    with False show ?thesis by (simp add: grid_b_def)
  qed
  have K: "?P (grid_K data m b_steps (t0_steps n) best k)"
    if best: "?P best" and k: "k \<in> set K_steps" for best k
  proof (cases "js_le (js_mul m k) m")
    case True
    with best show ?thesis by (simp add: grid_K_def)
  next
    case False
    have "?P (foldl (grid_b data (t0_steps n) (js_mul m k)) best b_steps)"
      using best by (rule foldl_invariant) (rule b [OF _ k False])
    with False show ?thesis by (simp add: grid_K_def)
  qed
  have "?P (grid_search data n m)"
    unfolding grid_search_def by (rule foldl_invariant) (simp, rule K)
  with assms show ?thesis by blast
qed

lemma refine_cases:
  "refine k data n m bp = bp \<or> (\<exists>bp'. refine_step data n m bp' = Some (refine k data n m bp))"
proof (induction k arbitrary: bp)
  case 0
  then show ?case by simp
next
  case (Suc k)
  show ?case
  proof (cases "refine_step data n m bp")
    case None
    then show ?thesis by simp
  next
    case (Some bp1)
    with Suc.IH [of bp1] show ?thesis by auto
  qed
qed

lemma refine_step_accepts:
  assumes "refine_step data n m bp = Some bp'"
  shows "isFinite (p_K bp') \<and> isFinite (p_b bp') \<and> isFinite (p_t0 bp') \<and>
         js_gt (p_K bp') m \<and> js_lt (p_K bp') (js_mul m (Fin 5)) \<and>
         js_gt (p_b bp') (lit (1 / 100)) \<and> js_lt (p_b bp') (Fin 1)"
  using assms
  by (auto simp add: refine_step_def Let_def split: option.splits prod.splits if_splits)

lemma gompertzModel_finite_params:
  "isFinite (gompertzModel t K b t0) \<Longrightarrow>
   isFinite K \<and> isFinite b \<and> isFinite t0 \<and> js_gt K (Fin 0) \<and> js_gt b (Fin 0)"
  by (cases K; cases b) (auto simp add: gompertzModel_def split: if_splits)

lemma grid_error_first:
  "grid_error K b t0 i (d # ds) e \<noteq> None \<Longrightarrow> isFinite (gompertzModel (js_of_nat i) K b t0)"
  by (auto simp add: Let_def split: if_splits)

lemma js_mul_finite: "isFinite (js_mul x y) \<Longrightarrow> isFinite x \<and> isFinite y"
  by (cases x; cases y) (auto simp add: signed_inf_def split: if_splits)

lemma not_le_gt: "isFinite x \<Longrightarrow> isFinite y \<Longrightarrow> \<not> js_le x y \<Longrightarrow> js_gt x y"
  by (cases x; cases y) simp_all

lemma gt_not_le: "js_gt x y \<Longrightarrow> \<not> js_le x y"
  by (cases x; cases y) simp_all

text \<open>The capacity of a returned fit exceeds the maximum, or is the corrective value.\<close>

lemma fit_K_cases:
  assumes fit: "fitGompertzCurve data = Some r"
  shows "js_gt (p_K (fit_params r)) (Math_max_list data) \<or>
         p_K (fit_params r) = js_mul (Math_max_list data) (lit (12 / 10))"
proof -
  define m where "m = Math_max_list data"
  define n where "n = js_of_nat (length data)"
  define bp0 where "bp0 = (case fst (grid_search data n m) of
      None \<Rightarrow> \<lparr>p_K = js_mul m (lit (15 / 10)), p_b = lit (2 / 10), p_t0 = js_mul n (lit (5 / 10))\<rparr>
    | Some bp \<Rightarrow> bp)"
  define bp1 where "bp1 = refine 50 data n m bp0"
  have "fitGompertzCurve data =
      (if \<not> isFinite (p_K bp1) \<or> \<not> isFinite (p_b bp1) \<or> \<not> isFinite (p_t0 bp1) then None
       else Some (fit_quality data n (adjust_params m bp1)))"
    unfolding fitGompertzCurve_def Let_def bp1_def bp0_def m_def n_def ..
  with fit have fin: "isFinite (p_K bp1)" and r: "r = fit_quality data n (adjust_params m bp1)"
    by (auto split: if_splits)
  have K: "p_K (fit_params r) = (if js_le (p_K bp1) m then js_mul m (lit (12 / 10)) else p_K bp1)"
    by (simp add: r fit_params_quality adjust_params_K)
  have "js_le (p_K bp1) m \<or> js_gt (p_K bp1) m"
  proof -
    from refine_cases [of 50 data n m bp0]
    consider "bp1 = bp0" | bp' where "refine_step data n m bp' = Some bp1"
      by (auto simp add: bp1_def)
    then show ?thesis
    proof cases
      case 2
      from refine_step_accepts [OF this] show ?thesis by simp
    next
      case 1
      have "\<exists>k. p_K bp0 = js_mul m k"
      proof (cases "fst (grid_search data n m)")
        case None
        then show ?thesis by (auto simp add: bp0_def)
      next
        case (Some bp)
        from grid_search_candidate [OF this] show ?thesis
          by (auto simp add: bp0_def Some grid_candidate_def)
      qed
      then obtain k where "p_K bp1 = js_mul m k" using 1 by auto
      with fin js_mul_finite [of m k] have "isFinite m" by simp
      with fin not_le_gt [of "p_K bp1" m] show ?thesis by blast
    qed
  qed
  with K show ?thesis by (auto simp add: m_def dest: gt_not_le)
qed

lemma fl_range:
  assumes "1 / 32 \<le> c" "c \<le> 4"
  shows "\<exists>r. fl c = Fin r \<and> 1 / 32 \<le> r \<and> r \<le> 4"
proof -
  have "fl (1 / 32) = Fin (1 / 32)"
    using fl_exact [of 1 "- 5"] by (simp add: powr_minus_divide)
  moreover have "fl 4 = Fin 4" using fl_of_int [of 4] by simp
  ultimately show ?thesis using fl_between [of "1 / 32" 4 c] assms by auto
qed

lemma lit_range: "1 / 32 \<le> c \<Longrightarrow> c \<le> 4 \<Longrightarrow> \<exists>r. lit c = Fin r \<and> 1 / 32 \<le> r \<and> r \<le> 4"
  unfolding lit_def by (rule fl_range)

lemma K_steps_range: "k \<in> set K_steps \<Longrightarrow> \<exists>r. k = Fin r \<and> 1 / 32 \<le> r \<and> r \<le> 4"
  using lit_range [of "11 / 10"] lit_range [of "13 / 10"] lit_range [of "15 / 10"]
    lit_range [of "25 / 10"]
  by (auto simp add: K_steps_def)

lemma lit_three_halves: "lit (3 / 2) = Fin (3 / 2)"
  using fl_exact [of 3 "- 1"] by (simp add: lit_def powr_minus_divide)

lemma lit_half: "lit (1 / 2) = Fin (1 / 2)"
  using fl_exact [of 1 "- 1"] by (simp add: lit_def powr_minus_divide)

lemma unit_paramsI:
  assumes "isFinite (p_K bp)" "isFinite (p_b bp)" "isFinite (p_t0 bp)"
    and "js_gt (p_K bp) (Fin 0)" "js_le (p_K bp) (Fin 5)" "js_gt (p_b bp) (Fin 0)"
  shows "unit_params bp"
proof -
  obtain K b t0 where bp: "bp = \<lparr>p_K = K, p_b = b, p_t0 = t0\<rparr>" by (cases bp) simp
  with assms show ?thesis
    by (cases K; cases b; cases t0) (simp_all add: unit_params_def)
qed

lemma js_gt_trans_lit:
  assumes "js_gt b (lit (1 / 100))"
  shows "js_gt b (Fin 0)"
proof -
  have "js_le (Fin 0) (lit (1 / 100))" unfolding lit_def by (rule fl_nonneg) simp
  with assms show ?thesis by (cases b; cases "lit (1 / 100)") simp_all
qed

lemma unit_refined: "unit_params (refine 50 [Fin 1] (Fin 1) (Fin 1)
    (case fst (grid_search [Fin 1] (Fin 1) (Fin 1)) of
       None \<Rightarrow> \<lparr>p_K = js_mul (Fin 1) (lit (15 / 10)), p_b = lit (2 / 10),
                 p_t0 = js_mul (Fin 1) (lit (5 / 10))\<rparr>
     | Some bp \<Rightarrow> bp))"
  (is "unit_params (refine 50 ?d ?n ?m ?bp0)")
proof -
  have five: "js_mul (Fin 1) (Fin 5) = Fin 5" using fl_of_int [of 5] by simp
  from refine_cases [of 50 ?d ?n ?m ?bp0]
  consider "refine 50 ?d ?n ?m ?bp0 = ?bp0"
    | bp' where "refine_step ?d ?n ?m bp' = Some (refine 50 ?d ?n ?m ?bp0)"
    by auto
  then show ?thesis
  proof cases
    case 2
    from refine_step_accepts [OF this] five js_gt_trans_lit show ?thesis
      by (intro unit_paramsI)
        (auto, (cases "p_K (refine 50 ?d ?n ?m ?bp0)"; simp)+)
  next
    case 1
    have "unit_params ?bp0"
    proof (cases "fst (grid_search ?d ?n ?m)")
      case None
      obtain b where b: "lit (1 / 5) = Fin b" "1 / 32 \<le> b"
        using lit_range [of "1 / 5"] by auto
      have "fl (3 / 2) = Fin (3 / 2)" using lit_three_halves by (simp add: lit_def)
      moreover have "fl (1 / 2) = Fin (1 / 2)" using lit_half by (simp add: lit_def)
      ultimately show ?thesis using b
        by (intro unit_paramsI) (simp_all add: None lit_three_halves lit_half)
    next
      case (Some bp)
      from grid_search_candidate [OF this] obtain k b t0
        where k: "k \<in> set K_steps" and bp: "bp = \<lparr>p_K = js_mul (Fin 1) k, p_b = b, p_t0 = t0\<rparr>"
          and err: "grid_error (js_mul (Fin 1) k) b t0 0 [Fin 1] (Fin 0) \<noteq> None"
        by (auto simp add: grid_candidate_def)
      from gompertzModel_finite_params [OF grid_error_first [OF err]]
      have fin: "isFinite (js_mul (Fin 1) k)" "isFinite b" "isFinite t0"
        "js_gt (js_mul (Fin 1) k) (Fin 0)" "js_gt b (Fin 0)" by simp_all
      from K_steps_range [OF k] obtain r where r: "k = Fin r" "1 / 32 \<le> r" "r \<le> 4" by blast
      from fl_range [OF r(2,3)] have "js_le (js_mul (Fin 1) k) (Fin 5)"
        by (auto simp add: r(1))
      with fin show ?thesis
        by (intro unit_paramsI) (simp_all add: Some bp)
    qed
    with 1 show ?thesis by simp
  qed
qed

lemma unit_adjust: "unit_params bp \<Longrightarrow> unit_params (adjust_params (Fin 1) bp)"
proof -
  assume "unit_params bp"
  then obtain K b t0 where bp: "bp = \<lparr>p_K = Fin K, p_b = Fin b, p_t0 = Fin t0\<rparr>"
    and K: "0 < K" "K \<le> 5" and b: "0 < b"
    by (auto simp add: unit_params_def)
  obtain k where k: "lit (6 / 5) = Fin k" "1 / 32 \<le> k" "k \<le> 4"
    using lit_range [of "6 / 5"] by auto
  have "js_mul (Fin 1) (lit (6 / 5)) = fl k" unfolding k(1) by simp
  with fl_range [OF k(2,3)] obtain K' where K': "js_mul (Fin 1) (lit (6 / 5)) = Fin K'"
    "1 / 32 \<le> K'" "K' \<le> 4" by auto
  obtain lo where lo: "lit (1 / 20) = Fin lo" "1 / 32 \<le> lo"
    using lit_range [of "1 / 20"] by auto
  show ?thesis
    using K b K'(2,3) lo(2)
    by (intro unit_paramsI) (auto simp add: bp adjust_params_def Let_def K'(1) lo(1) lit_half)
qed

lemma unit_prediction:
  assumes "unit_params bp"
  shows "isFinite (gompertzModel (js_of_nat 0) (p_K bp) (p_b bp) (p_t0 bp))"
proof -
  from assms obtain K b t0 where bp: "bp = \<lparr>p_K = Fin K, p_b = Fin b, p_t0 = Fin t0\<rparr>"
    and K: "0 < K" "K \<le> 5" and b: "0 < b"
    by (auto simp add: unit_params_def)
  have "fl 5 = Fin 5" using fl_of_int [of 5] by simp
  from gompertzModel_core [OF K this b, of "Fin 0" t0] show ?thesis
    by (auto simp add: bp js_of_nat_def)
qed

lemma unit_fit:
  "\<exists>res ssRes. fitGompertzCurve [Fin 1] = Some res \<and>
     residuals (fit_params res) (data_mean [Fin 1] (js_of_nat (length [Fin 1 :: jsnum]))) 0 [Fin 1]
       (Fin 0, Fin 0, False) = (ssRes, Fin 0, False) \<and>
     fit_valid res \<and>
     isFinite (gompertzModel (js_of_nat 0) (p_K (fit_params res)) (p_b (fit_params res))
       (p_t0 (fit_params res)))"
proof -
  define bp1 where "bp1 = refine 50 [Fin 1] (Fin 1) (Fin 1)
    (case fst (grid_search [Fin 1] (Fin 1) (Fin 1)) of
       None \<Rightarrow> \<lparr>p_K = js_mul (Fin 1) (lit (15 / 10)), p_b = lit (2 / 10),
                 p_t0 = js_mul (Fin 1) (lit (5 / 10))\<rparr>
     | Some bp \<Rightarrow> bp)"
  have u1: "unit_params bp1" unfolding bp1_def by (rule unit_refined)
  then have fin: "isFinite (p_K bp1)" "isFinite (p_b bp1)" "isFinite (p_t0 bp1)"
    by (auto simp add: unit_params_def)
  define bp where "bp = adjust_params (Fin 1) bp1"
  have u: "unit_params bp" unfolding bp_def using u1 by (rule unit_adjust)
  have m: "Math_max_list [Fin 1] = Fin 1" by (simp add: Math_max_list_def)
  have n: "js_of_nat (length [Fin 1 :: jsnum]) = Fin 1" by (simp add: js_of_nat_def)
  have "fitGompertzCurve [Fin 1] =
      (if \<not> isFinite (p_K bp1) \<or> \<not> isFinite (p_b bp1) \<or> \<not> isFinite (p_t0 bp1) then None
       else Some (fit_quality [Fin 1] (Fin 1) bp))"
    unfolding fitGompertzCurve_def Let_def n m bp_def bp1_def ..
  with fin have fit: "fitGompertzCurve [Fin 1] = Some (fit_quality [Fin 1] (Fin 1) bp)"
    by simp
  have one: "fl 1 = Fin 1" using fl_of_int [of 1] by simp
  have mean: "data_mean [Fin 1] (js_of_nat (length [Fin 1 :: jsnum])) = Fin 1"
    by (simp add: data_mean_def js_of_nat_def one)
  from unit_prediction [OF u]
  obtain ssRes where res: "residuals bp (Fin 1) 0 [Fin 1] (Fin 0, Fin 0, False) = (ssRes, Fin 0, False)"
    by (auto simp add: Let_def Math_pow2_def js_sub_def)
  then have "fit_valid (fit_quality [Fin 1] (Fin 1) bp)"
    using mean by (simp add: fit_quality_def Let_def r_squared_def js_of_nat_def)
  with fit mean res unit_prediction [OF u] show ?thesis
    by (auto simp add: fit_params_quality)
qed

text \<open>
  Claim C3. A result returned by the fit has \<open>r2\<close> in \<open>[0, 1]\<close>; \<open>r2\<close> is 0 when the
  accumulated total sum of squares is 0; and \<open>valid\<close> holds only if the model prediction
  at every index of the series is finite and the computed \<open>R\<^sup>2\<close> is finite. The sums
  are the ones of the loop, which skips an index whose prediction is not finite.
\<close>

theorem fit_quality_measures:
  assumes "fitGompertzCurve data = Some res"
    and "residuals (fit_params res) (data_mean data (js_of_nat (length data))) 0 data
           (Fin 0, Fin 0, False) = (ssRes, ssTot, hasNaNPredictions)"
  shows "js_le (Fin 0) (fit_r2 res) \<and> js_le (fit_r2 res) (Fin 1) \<and>
         (ssTot = Fin 0 \<longrightarrow> fit_r2 res = Fin 0) \<and>
         (fit_valid res \<longrightarrow>
            \<not> hasNaNPredictions \<and> isFinite (r_squared ssRes ssTot) \<and>
            (\<forall>i < length data.
               isFinite (gompertzModel (js_of_nat i) (p_K (fit_params res)) (p_b (fit_params res))
                 (p_t0 (fit_params res)))))"
proof -
  let ?n = "js_of_nat (length data)"
  from assms(1) obtain bp where res: "res = fit_quality data ?n bp"
    by (auto simp add: fitGompertzCurve_def Let_def split: if_splits)
  have bp: "fit_params res = bp"
    unfolding res fit_quality_def by (simp add: Let_def split: prod.splits)
  from assms(2) have sums:
    "residuals bp (data_mean data ?n) 0 data (Fin 0, Fin 0, False) = (ssRes, ssTot, hasNaNPredictions)"
    by (simp add: bp)
  have r2: "fit_r2 res = (if isFinite (r_squared ssRes ssTot) then r_squared ssRes ssTot else Fin 0)"
    and valid: "fit_valid res = (\<not> hasNaNPredictions \<and> isFinite (r_squared ssRes ssTot))"
    unfolding res fit_quality_def by (simp_all add: sums Let_def)
  have range: "js_le (Fin 0) (fit_r2 res) \<and> js_le (fit_r2 res) (Fin 1)"
    using r_squared_range [of ssRes ssTot] by (simp add: r2)
  have zero: "ssTot = Fin 0 \<longrightarrow> fit_r2 res = Fin 0"
    by (simp add: r2 r_squared_def)
  have preds: "\<forall>i < length data.
      isFinite (gompertzModel (js_of_nat i) (p_K bp) (p_b bp) (p_t0 bp))"
    if "\<not> hasNaNPredictions"
    using residuals_flag [of bp "data_mean data ?n" 0 data "Fin 0" "Fin 0" False ssRes ssTot]
      sums that by simp
  from range zero valid preds show ?thesis
    by (simp add: bp)
qed


theorem fit_quality_measures_witness:
  "\<exists>res ssRes. fitGompertzCurve [Fin 1] = Some res \<and>
     residuals (fit_params res) (data_mean [Fin 1] (js_of_nat (length [Fin 1 :: jsnum]))) 0 [Fin 1]
       (Fin 0, Fin 0, False) = (ssRes, Fin 0, False) \<and>
     js_le (Fin 0) (fit_r2 res) \<and> js_le (fit_r2 res) (Fin 1) \<and> fit_r2 res = Fin 0 \<and>
     fit_valid res \<and> isFinite (r_squared ssRes (Fin 0)) \<and>
     isFinite (gompertzModel (js_of_nat 0) (p_K (fit_params res)) (p_b (fit_params res))
       (p_t0 (fit_params res)))"
proof -
  from unit_fit obtain res ssRes where fit: "fitGompertzCurve [Fin 1] = Some res"
    and sums: "residuals (fit_params res) (data_mean [Fin 1] (js_of_nat (length [Fin 1 :: jsnum])))
       0 [Fin 1] (Fin 0, Fin 0, False) = (ssRes, Fin 0, False)"
    and valid: "fit_valid res"
    by blast
  from fit_quality_measures [OF fit sums] valid fit sums show ?thesis
    by auto
qed

text \<open>
  Claim C1, on the code. The all-zero series of eight quarters has maximum 0. Every grid
  candidate \<open>0 * k\<close> is rejected, the fallback capacity is \<open>0 * 1.5 = 0\<close>, the refinement
  stops at once because the model rejects \<open>K = 0\<close>, and the corrective clamp sets
  \<open>K = 0 * 1.2 = 0\<close>: a result is returned whose \<open>K\<close> equals the maximum.
\<close>

theorem fit_zero_series:
  "Math_max_list zeros8 = Fin 0 \<and>
   map_option (p_K \<circ> fit_params) (fitGompertzCurve zeros8) = Some (Fin 0)"
  using fit_zeros8 by (simp add: max_zeros8 comp_def)

theorem fit_zero_series_returns:
  "fitGompertzCurve zeros8 \<noteq> None"
  using fit_zero_series by auto


section \<open>Properties of the quality analysis\<close>

lemma nondecreasing_nonMonotonic: "nondecreasing vs \<Longrightarrow> nonMonotonic vs = 0"
proof (induction vs rule: nonMonotonic.induct)
  case (1 prev v vs)
  then show ?case by (cases prev; cases v) simp_all
qed simp_all

lemma quality_analysis_complete:
  assumes len: "length data = 20"
    and full: "\<forall>d \<in> set data. \<not> isMissing d"
    and mono: "nondecreasing (map accounts_num data)"
    and noout: "\<forall>d \<in> set data. \<not> js_gt (zScore (series_mean (map accounts_num data))
                  (series_stdDev (map accounts_num data)) d) (Fin 2)"
  shows "score (snd (quality_analysis data)) = 100 \<and>
         issues (snd (quality_analysis data)) = [DataComplete 20]"
proof -
  from full have valid: "filter (\<lambda>d. \<not> isMissing d) data = data" by simp
  from full have missing: "filter isMissing data = []" by simp
  from noout have "\<forall>d \<in> set data. \<not> outlier_now data d"
    by (simp add: outlier_now_def valid)
  then have out: "filter (outlier_now data) data = []" by simp
  from mono have nm: "nonMonotonic (map accounts_num data) = 0"
    by (rule nondecreasing_nonMonotonic)
  show ?thesis
    by (simp add: quality_analysis_def Let_def valid missing out nm len)
qed

lemma valid_values_cong:
  "map isMissing data = map isMissing data' \<Longrightarrow>
   map accounts_num data = map accounts_num data' \<Longrightarrow>
   map accounts_num (filter (\<lambda>d. \<not> isMissing d) data) =
   map accounts_num (filter (\<lambda>d. \<not> isMissing d) data')"
proof (induction data arbitrary: data')
  case Nil
  then show ?case by simp
next
  case (Cons d ds)
  then obtain e es where "data' = e # es" by (cases data') simp_all
  with Cons show ?case by auto
qed

lemma outlier_now_cong:
  assumes "map isMissing data = map isMissing data'"
    and "map accounts_num data = map accounts_num data'"
    and "isMissing d = isMissing d'" and "accounts_num d = accounts_num d'"
  shows "outlier_now data d = outlier_now data' d'"
proof -
  from valid_values_cong [OF assms(1,2)]
  have vs: "map accounts_num (filter (\<lambda>d. \<not> isMissing d) data) =
            map accounts_num (filter (\<lambda>d. \<not> isMissing d) data')" .
  then have "length (filter (\<lambda>d. \<not> isMissing d) data) = length (filter (\<lambda>d. \<not> isMissing d) data')"
    by (rule map_eq_imp_length_eq)
  with vs assms(3,4) show ?thesis
    by (simp add: outlier_now_def Let_def zScore_def)
qed

lemma quality_analysis_length: "length (fst (quality_analysis data)) = length data"
  by (simp add: quality_analysis_def Let_def split: prod.splits)

lemma quality_analysis_flag:
  "i < length data \<Longrightarrow>
   isOutlier (fst (quality_analysis data) ! i) = (isOutlier (data ! i) \<or> outlier_now data (data ! i))"
  by (simp add: quality_analysis_def Let_def split: prod.splits)

lemma analyzeDataQuality_series:
  "historicalData (analyzeDataQuality st) = fst (quality_analysis (historicalData st))"
  by (simp add: analyzeDataQuality_def split: prod.splits)

lemma update_keeps_verdict:
  assumes i: "i < length data"
    and d: "isMissing d = isMissing (data ! i)" "accounts_num d = accounts_num (data ! i)"
  shows "outlier_now (data[i := d]) d = outlier_now data (data ! i)"
proof (rule outlier_now_cong)
  show "map isMissing (data[i := d]) = map isMissing data"
    using i d(1) by (simp add: map_update list_update_same_conv)
  show "map accounts_num (data[i := d]) = map accounts_num data"
    using i d(2) by (simp add: map_update list_update_same_conv)
qed (rule d)+

text \<open>
  The flag of an entry after each operation on the series: the analysis keeps a set flag
  and sets the flag of an entry that fails the z-score test; \<open>confirmCell\<close> leaves the
  verdict of the analysis it runs; \<open>editCell\<close> keeps a set flag.
\<close>

lemma flag_after_operations:
  assumes i: "i < length (historicalData st)"
  shows "isOutlier (historicalData (analyzeDataQuality st) ! i) =
           (isOutlier (historicalData st ! i) \<or>
            outlier_now (historicalData st) (historicalData st ! i)) \<and>
         (\<exists>st'. confirmCell i st = Some st' \<and>
            isOutlier (historicalData st' ! i) =
              outlier_now (historicalData st) (historicalData st ! i)) \<and>
         (isOutlier (historicalData st ! i) \<longrightarrow>
            (\<forall>answer. \<exists>st'. editCell i answer st = Some st' \<and> isOutlier (historicalData st' ! i)))"
proof -
  let ?data = "historicalData st"
  have a: "isOutlier (historicalData (analyzeDataQuality st) ! i) =
      (isOutlier (?data ! i) \<or> outlier_now ?data (?data ! i))"
    using i by (simp add: analyzeDataQuality_series quality_analysis_flag)
  let ?d = "(?data ! i)\<lparr>isOutlier := False, dataType := Confirmed\<rparr>"
  have "outlier_now (?data[i := ?d]) ?d = outlier_now ?data (?data ! i)"
    using i by (intro update_keeps_verdict) (simp_all add: accounts_num_def)
  then have b: "\<exists>st'. confirmCell i st = Some st' \<and>
      isOutlier (historicalData st' ! i) = outlier_now ?data (?data ! i)"
    using i by (simp add: confirmCell_def analyzeDataQuality_series quality_analysis_flag)
  have c: "\<exists>st'. editCell i answer st = Some st' \<and> isOutlier (historicalData st' ! i)"
    if "isOutlier (?data ! i)" for answer
    using i that
    by (auto simp add: editCell_def Let_def analyzeDataQuality_series quality_analysis_flag
        split: option.splits)
  from a b c show ?thesis by blast
qed

text \<open>
  Claim C10. The analysis only ever sets the outlier flag, on an entry whose z-score
  exceeds 2, and never resets it: after an analysis an entry is flagged exactly when it
  was flagged before or its z-score exceeds 2. So a flagged entry stays flagged in every
  later analysis, also when the series has changed, as through \<open>editCell\<close>, whatever the
  answer, and its z-score is now at most 2. Only \<open>confirmCell\<close> clears the flag: on an
  entry whose z-score is at most 2 it leaves the entry without the flag.
\<close>

theorem outlier_flag_sticky:
  assumes "i < length (historicalData st)"
  shows "isOutlier (historicalData (analyzeDataQuality st) ! i) =
           (isOutlier (historicalData st ! i) \<or>
            outlier_now (historicalData st) (historicalData st ! i)) \<and>
         (isOutlier (historicalData st ! i) \<longrightarrow>
            (\<forall>answer. \<exists>st'. editCell i answer st = Some st' \<and> isOutlier (historicalData st' ! i))) \<and>
         (\<not> outlier_now (historicalData st) (historicalData st ! i) \<longrightarrow>
            (\<exists>st'. confirmCell i st = Some st' \<and> \<not> isOutlier (historicalData st' ! i)))"
  using flag_after_operations [OF assms] by auto

lemma zScore_bounded:
  assumes s: "fl lo = Fin lo" "0 < lo" "lo \<le> s" and d: "\<bar>d\<bar> \<le> 2 * lo"
  shows "\<not> js_gt (Math_abs (js_div (Fin d) (Fin s))) (Fin 2)"
proof -
  from s have spos: "0 < s" by simp
  have "\<bar>d / s\<bar> = \<bar>d\<bar> / s" using spos by simp
  also have "\<dots> \<le> (2 * lo) / s" using d spos by (simp add: divide_right_mono)
  also have "\<dots> \<le> 2" using s spos by (simp add: pos_divide_le_eq)
  finally have "\<bar>d / s\<bar> \<le> 2" .
  then have "- 2 \<le> d / s" "d / s \<le> 2" by linarith+
  moreover have "fl (- 2) = Fin (- 2)" "fl 2 = Fin 2"
    by (simp_all add: fl_numeral fl_neg_numeral)
  ultimately have "fl (d / s) = Fin (fl_real (d / s))" "- 2 \<le> fl_real (d / s)" "fl_real (d / s) \<le> 2"
    using fl_between [of "- 2" 2 "d / s"] by simp_all
  with spos show ?thesis by simp
qed

lemma sqrt_rounded:
  assumes "fl lo = Fin lo" "fl hi = Fin hi" "0 \<le> lo" "lo\<^sup>2 \<le> x" "x \<le> hi\<^sup>2" "0 \<le> hi"
  shows "\<exists>s. Math_sqrt (Fin x) = Fin s \<and> lo \<le> s \<and> s \<le> hi"
proof -
  from assms(3,4) have x: "0 \<le> x" by (meson order_trans zero_le_power2)
  have "lo \<le> sqrt x" using assms(3,4) by (simp add: real_le_rsqrt)
  moreover have "sqrt x \<le> hi" using assms(5,6) by (simp add: real_le_lsqrt x)
  ultimately show ?thesis using fl_between [OF assms(1,2), of "sqrt x"] x by simp
qed

lemma even_values:
  "map accounts_num even_series = map Fin [0, 2, 4, 6, 8, 10, 12, 14, 16, 18, 20, 22, 24, 26, 28, 30, 32, 34, 36, 38]"
  by (simp add: even_series_def observed_def accounts_num_def)

lemma even_mean: "series_mean (map accounts_num even_series) = Fin 19"
  by (simp add: even_values series_mean_def js_of_nat_def fl_numeral)

lemma even_stdDev: "\<exists>s. series_stdDev (map accounts_num even_series) = Fin s \<and> 10 \<le> s"
proof -
  have "series_stdDev (map accounts_num even_series) = Math_sqrt (Fin 133)"
    unfolding series_stdDev_def Let_def even_mean
    by (simp add: even_values js_of_nat_def js_sub_def Math_pow2_def fl_numeral fl_neg_numeral
        fl_one fl_neg_one)
  moreover have "\<exists>s. Math_sqrt (Fin 133) = Fin s \<and> 10 \<le> s \<and> s \<le> 12"
    by (rule sqrt_rounded) (simp_all add: fl_numeral)
  ultimately show ?thesis by auto
qed

lemma even_no_outlier:
  "\<forall>d \<in> set even_series. \<not> js_gt (zScore (series_mean (map accounts_num even_series))
     (series_stdDev (map accounts_num even_series)) d) (Fin 2)"
proof -
  from even_stdDev obtain s where s: "series_stdDev (map accounts_num even_series) = Fin s" "10 \<le> s"
    by blast
  have ten: "fl 10 = Fin 10" by (simp add: fl_numeral)
  have z: "\<not> js_gt (Math_abs (js_div (Fin d) (Fin s))) (Fin 2)" if "\<bar>d\<bar> \<le> 20" for d
    using zScore_bounded [OF ten _ s(2), of d] that by simp
  show ?thesis
    unfolding s(1) even_mean
    by (simp add: even_series_def observed_def zScore_def accounts_num_def js_sub_def
        fl_numeral fl_neg_numeral fl_one fl_neg_one z del: js_div.simps)
qed

lemma analyzeDataQuality_report:
  "dataQuality (analyzeDataQuality st) = Some (snd (quality_analysis (historicalData st)))"
  by (simp add: analyzeDataQuality_def split: prod.splits)

text \<open>
  Claim C6. For a series of 20 entries, none missing, whose values never fall from one
  quarter to the next and none of which has a z-score above 2, the analysis reports the
  score 100 and exactly one issue, the entry for complete data.
\<close>

theorem quality_complete_series:
  assumes "length (historicalData st) = 20"
    and "\<forall>d \<in> set (historicalData st). \<not> isMissing d"
    and "nondecreasing (map accounts_num (historicalData st))"
    and "\<forall>d \<in> set (historicalData st).
           \<not> js_gt (zScore (series_mean (map accounts_num (historicalData st)))
                  (series_stdDev (map accounts_num (historicalData st))) d) (Fin 2)"
  shows "\<exists>report. dataQuality (analyzeDataQuality st) = Some report \<and>
           score report = 100 \<and> issues report = [DataComplete 20]"
  using quality_analysis_complete [OF assms]
  by (simp add: analyzeDataQuality_report)

theorem quality_complete_series_witness:
  "length even_series = 20 \<and>
   (\<exists>report. dataQuality (analyzeDataQuality \<lparr>historicalData = even_series, dataQuality = None\<rparr>)
        = Some report \<and> score report = 100 \<and> issues report = [DataComplete 20])"
proof -
  have len: "length even_series = 20" by (simp add: even_series_def)
  have full: "\<forall>d \<in> set even_series. \<not> isMissing d"
    by (simp add: even_series_def observed_def)
  have mono: "nondecreasing (map accounts_num even_series)"
    by (simp add: even_values)
  from quality_complete_series [of "\<lparr>historicalData = even_series, dataQuality = None\<rparr>"]
    len full mono even_no_outlier
  show ?thesis by simp
qed

lemma flagged_values: "map accounts_num flagged_series = map Fin [1, 2, 3, 4, 5]"
  by (simp add: flagged_series_def observed_def accounts_num_def)

lemma flagged_not_outlier: "\<not> outlier_now flagged_series (flagged_series ! 2)"
proof -
  have valid: "filter (\<lambda>d. \<not> isMissing d) flagged_series = flagged_series"
    by (simp add: flagged_series_def observed_def)
  have mean: "series_mean (map accounts_num flagged_series) = Fin 3"
    by (simp add: flagged_values series_mean_def js_of_nat_def fl_numeral fl_one)
  have "series_stdDev (map accounts_num flagged_series) = Math_sqrt (Fin 2)"
    unfolding series_stdDev_def Let_def mean
    by (simp add: flagged_values js_of_nat_def js_sub_def Math_pow2_def fl_numeral fl_neg_numeral
        fl_one fl_neg_one)
  moreover have "\<exists>s. Math_sqrt (Fin 2) = Fin s \<and> 1 \<le> s \<and> s \<le> 2"
    by (rule sqrt_rounded) (simp_all add: fl_numeral fl_one)
  ultimately obtain s where s: "series_stdDev (map accounts_num flagged_series) = Fin s" "1 \<le> s"
    by auto
  have "\<not> js_gt (Math_abs (js_div (Fin 0) (Fin s))) (Fin 2)"
    using zScore_bounded [OF fl_one _ s(2), of 0] by simp
  then show ?thesis
    unfolding outlier_now_def Let_def valid s(1) mean
    by (simp add: flagged_series_def observed_def zScore_def accounts_num_def js_sub_def
        fl_neg_numeral del: js_div.simps)
qed

theorem outlier_flag_sticky_witness:
  "2 < length (historicalData flagged_state) \<and>
   isOutlier (historicalData flagged_state ! 2) \<and>
   \<not> outlier_now (historicalData flagged_state) (historicalData flagged_state ! 2) \<and>
   isOutlier (historicalData (analyzeDataQuality flagged_state) ! 2) \<and>
   (\<exists>st'. confirmCell 2 flagged_state = Some st' \<and> \<not> isOutlier (historicalData st' ! 2)) \<and>
   (\<exists>st'. editCell 2 (Some (js_str ''3'')) flagged_state = Some st' \<and> isOutlier (historicalData st' ! 2))"
proof -
  have len: "2 < length (historicalData flagged_state)"
    by (simp add: flagged_state_def flagged_series_def)
  have flag: "isOutlier (historicalData flagged_state ! 2)"
    by (simp add: flagged_state_def flagged_series_def)
  have verdict: "\<not> outlier_now (historicalData flagged_state) (historicalData flagged_state ! 2)"
    using flagged_not_outlier by (simp add: flagged_state_def)
  from outlier_flag_sticky [OF len] flag verdict len show ?thesis
    by blast
qed

lemma sqrt_9: "sqrt 9 = 3"
proof -
  have "sqrt (3\<^sup>2) = \<bar>3\<bar>" by (rule real_sqrt_abs)
  then show ?thesis by simp
qed

lemma outlier_values: "map accounts_num outlier_series = map Fin [0, 0, 0, 0, 0, 0, 0, 0, 0, 10]"
  by (simp add: outlier_series_def observed_def accounts_num_def)

lemma outlier_still: "outlier_now outlier_series (outlier_series ! 9)"
proof -
  have valid: "filter (\<lambda>d. \<not> isMissing d) outlier_series = outlier_series"
    by (simp add: outlier_series_def observed_def)
  have mean: "series_mean (map accounts_num outlier_series) = Fin 1"
    by (simp add: outlier_values series_mean_def js_of_nat_def fl_numeral fl_one)
  have std: "series_stdDev (map accounts_num outlier_series) = Fin 3"
    unfolding series_stdDev_def Let_def mean
    by (simp add: outlier_values js_of_nat_def js_sub_def Math_pow2_def fl_numeral fl_neg_numeral
        fl_one fl_neg_one sqrt_9)
  show ?thesis
    unfolding outlier_now_def Let_def valid std mean
    by (simp add: outlier_series_def observed_def zScore_def accounts_num_def js_sub_def
        fl_numeral fl_neg_numeral fl_one fl_neg_one)
qed

text \<open>
  Outside the case of a z-score of at most 2: \<open>confirmCell\<close> analyses the series again
  after it has reset the flag, so an entry whose z-score still exceeds 2 is flagged anew.
  In the series of nine values 0 and one value 10 the last entry has the z-score 3, and
  after \<open>confirmCell\<close> on it the entry carries the flag.
\<close>

lemma confirmCell_flagged_again:
  "isOutlier (historicalData outlier_state ! 9) \<and>
   confirmCell 9 outlier_state \<noteq> None \<and>
   isOutlier (historicalData (the (confirmCell 9 outlier_state)) ! 9)"
proof -
  have len: "9 < length (historicalData outlier_state)"
    by (simp add: outlier_state_def outlier_series_def)
  from flag_after_operations [OF len] obtain st' where "confirmCell 9 outlier_state = Some st'"
    and "isOutlier (historicalData st' ! 9) =
      outlier_now (historicalData outlier_state) (historicalData outlier_state ! 9)"
    by blast
  moreover have "outlier_now (historicalData outlier_state) (historicalData outlier_state ! 9)"
    using outlier_still by (simp add: outlier_state_def)
  moreover have "isOutlier (historicalData outlier_state ! 9)"
    by (simp add: outlier_state_def outlier_series_def)
  ultimately show ?thesis by simp
qed


section \<open>Properties of parsing\<close>

lemma parse_line_rejected: "row_rejected line = (\<exists>e. parse_line line = Inl e)"
  by (auto simp add: row_rejected_def parse_line_def missing_marker_def Let_def)

lemma parse_lines_accepts:
  "parse_lines ls acc = Inr data \<Longrightarrow>
   (\<forall>l \<in> set (filter (\<lambda>line. trim line \<noteq> []) ls). \<not> row_rejected l) \<and>
   length data = length acc + length (filter (\<lambda>line. trim line \<noteq> []) ls)"
proof (induction ls arbitrary: acc)
  case Nil
  then show ?case by simp
next
  case (Cons l ls)
  show ?case
  proof (cases "trim l = []")
    case True
    with Cons show ?thesis by simp
  next
    case False
    with Cons.prems obtain d where d: "parse_line l = Inr d"
      and rest: "parse_lines ls (acc @ [d]) = Inr data"
      by (auto split: sum.splits)
    from d have "\<not> row_rejected l" by (simp add: parse_line_rejected)
    with Cons.IH [OF rest] False show ?thesis by simp
  qed
qed

text \<open>
  What the loop does refuse: if a row (a line that is not blank) has other than two
  fields separated by commas, or a value that is not a missing-value marker and for which
  \<open>parseFloat\<close> gives NaN or a negative number, or if fewer than 8 rows remain, then
  parsing fails with an error and the state, and with it \<open>state.historicalData\<close>, is
  exactly what it was before the call.
\<close>

lemma parse_rejects_batch:
  assumes "(\<exists>line \<in> set (data_rows dataInput). row_rejected line) \<or> length (data_rows dataInput) < 8"
  shows "\<exists>e. parseAndDisplayData dataInput st = (Some e, st)"
proof (cases "parse_lines (split_on 10 (trim dataInput)) []")
  case (Inl e)
  then show ?thesis by (simp add: parseAndDisplayData_def)
next
  case (Inr data)
  from parse_lines_accepts [OF this] assms have "length data < 8"
    by (auto simp add: data_rows_def)
  with Inr show ?thesis by (simp add: parseAndDisplayData_def)
qed

lemma parseFloat_minus5: "parseFloat (js_str ''-5'') = Fin (- 5)"
  by (simp add: parseFloat_def parse_unsigned_def is_space_def is_digit_def exponent_part_def
      digits_val_def digit_val_def Let_def fl_numeral js_str_def)

text \<open>A row with a negative value: the error names the value and the series stays.\<close>

lemma parse_rejects_negative:
  "row_rejected (js_str ''Q1 2020,-5'') \<and>
   parseAndDisplayData (js_str ''Q1 2020,-5'') flagged_state =
     (Some (NegativeNumber (js_str ''-5'')), flagged_state)"
proof -
  have rej: "row_rejected (js_str ''Q1 2020,-5'')"
    using parseFloat_minus5
    by (simp add: row_rejected_def Let_def trim_def is_space_def missing_marker_def
        toLowerCase_def js_str_def)
  have err: "parse_line (js_str ''Q1 2020,-5'') = Inl (NegativeNumber (js_str ''-5''))"
    using parseFloat_minus5
    by (simp add: parse_line_def Let_def trim_def is_space_def toLowerCase_def js_str_def)
  have "parseAndDisplayData (js_str ''Q1 2020,-5'') flagged_state =
      (Some (NegativeNumber (js_str ''-5'')), flagged_state)"
    using err by (simp add: parseAndDisplayData_def trim_def is_space_def js_str_def)
  with rej show ?thesis by simp
qed

text \<open>
  A value of white space only, here the no-break space U+00A0, is trimmed to the empty
  string and read as a missing value; the word \<open>Infinity\<close> is read as a number.
\<close>

lemma parse_line_no_break_space:
  "parse_line (js_str ''Q1 2020,'' @ [160]) =
     Inr \<lparr>period = js_str ''Q1 2020'', accounts = None, isMissing = True, dataType = Missing,
          isOutlier = False\<rparr>"
  by (simp add: parse_line_def Let_def trim_def is_space_def js_str_def)

lemma parse_line_Infinity:
  "parse_line (js_str ''Q1 2020,Infinity'') =
     Inr \<lparr>period = js_str ''Q1 2020'', accounts = Some PInf, isMissing = False,
          dataType = Original, isOutlier = False\<rparr>"
  by (simp add: parse_line_def Let_def trim_def is_space_def js_str_def toLowerCase_def
      parseFloat_def parse_unsigned_def)

lemma parseFloat_12abc: "parseFloat (js_str ''12abc'') = Fin 12"
  by (simp add: parseFloat_def parse_unsigned_def is_space_def is_digit_def exponent_part_def
      digits_val_def digit_val_def Let_def fl_numeral js_str_def)

lemma lenient_lines:
  "split_on 10 (trim lenient_batch) =
     [js_str ''Q1 2020,12abc'', js_str ''Q2 2020,12abc'', js_str ''Q3 2020,12abc'',
      js_str ''Q4 2020,12abc'', js_str ''Q1 2021,12abc'', js_str ''Q2 2021,12abc'',
      js_str ''Q3 2021,12abc'', js_str ''Q4 2021,12abc'']"
  by (simp add: lenient_batch_def trim_def is_space_def js_str_def)

lemma replicate_8: "replicate 8 x = [x, x, x, x, x, x, x, x]"
  by (simp add: eval_nat_numeral)

lemma lenient_parsed:
  "\<exists>data. parse_lines (split_on 10 (trim lenient_batch)) [] = Inr data \<and>
     map accounts data = replicate 8 (Some (Fin 12))"
  unfolding lenient_lines replicate_8
  using parseFloat_12abc
  by (simp add: parse_line_def Let_def trim_def is_space_def toLowerCase_def js_str_def)

lemma quality_analysis_accounts: "map accounts (fst (quality_analysis data)) = map accounts data"
  by (simp add: quality_analysis_def Let_def split: prod.splits)

text \<open>\<open>editCell\<close> reads its answer the same way.\<close>

lemma editCell_lenient:
  "i < length (historicalData st) \<Longrightarrow>
   \<exists>st'. editCell i (Some (js_str ''12abc'')) st = Some st' \<and>
     accounts (historicalData st' ! i) = Some (Fin 12)"
proof -
  assume i: "i < length (historicalData st)"
  let ?data = "(historicalData st)[i := (historicalData st ! i)
      \<lparr>accounts := Some (Fin 12), isMissing := False, dataType := Corrected\<rparr>]"
  have "map accounts (fst (quality_analysis ?data)) ! i = Some (Fin 12)"
    using i by (simp add: quality_analysis_accounts)
  then have "accounts (fst (quality_analysis ?data) ! i) = Some (Fin 12)"
    using i by (simp add: quality_analysis_length)
  with i show ?thesis
    by (simp add: editCell_def parseFloat_12abc analyzeDataQuality_series)
qed

text \<open>
  Claim C7, on the code. The claim has parsing fail for every row whose value is not a
  non-negative number. The code means to refuse such a value (the test \<open>isNaN\<close> with its
  error for an invalid number), but \<open>parseFloat\<close> reads the longest numeric prefix and
  ignores what follows: the value \<open>12abc\<close> is read as 12. A batch of eight rows with that
  value, given when the series is empty, is accepted without an error and stored, each
  value as 12.
\<close>

theorem parse_accepts_trailing_text:
  "parseFloat (js_str ''12abc'') = Fin 12 \<and>
   historicalData empty_state = [] \<and>
   fst (parseAndDisplayData lenient_batch empty_state) = None \<and>
   map accounts (historicalData (snd (parseAndDisplayData lenient_batch empty_state))) =
     [Some (Fin 12), Some (Fin 12), Some (Fin 12), Some (Fin 12),
      Some (Fin 12), Some (Fin 12), Some (Fin 12), Some (Fin 12)]"
proof -
  from lenient_parsed obtain data
    where data: "parse_lines (split_on 10 (trim lenient_batch)) [] = Inr data"
      and vals: "map accounts data = replicate 8 (Some (Fin 12))"
    by blast
  from vals have "length (map accounts data) = 8" by simp
  then have len: "length data = 8" by simp
  have "parseAndDisplayData lenient_batch empty_state =
      (None, analyzeDataQuality (empty_state\<lparr>historicalData := data\<rparr>))"
    by (simp add: parseAndDisplayData_def data len)
  then show ?thesis
    using vals
    by (simp add: parseFloat_12abc empty_state_def analyzeDataQuality_series
        quality_analysis_accounts replicate_8)
qed

end
